theory Spec2Isabelle
  imports Main "HOL-Library.Word"
begin

unbundle bit_operations_syntax

section \<open>Build constants, data model and call outcomes\<close>

text \<open>
  The file \<^verbatim>\<open>context/ctx_bn.c\<close> is compiled against \<^verbatim>\<open>bn.h\<close> and \<^verbatim>\<open>crypt.h\<close>, which fix
  the array sizes and the flag bits. The development takes them as a parameter, a record
  with one field per preprocessor constant the code names, so that every result holds for
  whatever values a build chooses.
\<close>

record bn_consts =
  BIGNUM_ALLOC_WORDS :: int
  BIGNUM_ALLOC_WORDS_EXT :: int
  BIGNUM_ALLOC_WORDS_EXT2 :: int
  BN_CTX_ARRAY_SIZE :: int
  BN_CTX_EXTARRAY_SIZE :: int
  BN_CTX_EXT2ARRAY_SIZE :: int
  BN_FLG_NONE :: int
  BN_FLG_MAX :: int
  BN_FLG_MALLOCED :: int
  BN_FLG_STATIC_DATA :: int
  BN_FLG_ALLOC_EXT :: int
  BN_FLG_ALLOC_EXT2 :: int

text \<open>
  \<^verbatim>\<open>struct bignum_st { int dmax, top, neg, flags; BN_ULONG d[...]; }\<close>, in the field order
  that the initialiser of \<^verbatim>\<open>BN_value_one\<close> shows. The element type is
  \<^verbatim>\<open>BN_ULONG\<close>, a machine word \<^typ>\<open>'w word\<close> in every function below; its width is \<^verbatim>\<open>BN_BITS2\<close>. The fields \<^verbatim>\<open>top\<close> and \<^verbatim>\<open>d\<close> are
  named \<open>bn_top\<close> and \<open>bn_d\<close> here. The list \<open>bn_d\<close> is the whole physical array.
\<close>

record 'a BIGNUM =
  dmax :: int
  bn_top :: int
  neg :: int
  flags :: int
  bn_d :: "'a list"

text \<open>
  \<^verbatim>\<open>BN_CTX\<close>: the pool of standard bignums, the two pools of larger ones, the
  last-used position \<^verbatim>\<open>bnArrayMax\<close>, and the stack of frame tops with its depth.
\<close>

record 'a BN_CTX =
  bnArray :: "'a BIGNUM list"
  bnExtArray :: "'a BIGNUM list"
  bnExt2Array :: "'a BIGNUM list"
  bnArrayMax :: int
  stack :: "int list"
  stackPos :: int

datatype BIGNUM_EXT_TYPE =
  BIGNUM_EXT_NONE | BIGNUM_EXT_MONT | BIGNUM_EXT_MUL1 | BIGNUM_EXT_MUL2 | BIGNUM_EXT_LAST

text \<open>
  A pointer to a bignum of a context is the array it lies in and its index there.
  \<^verbatim>\<open>NULL\<close> is \<open>None\<close> of the option type.
\<close>

datatype bn_ptr = Pool int | Ext int | Ext2 int

text \<open>
  Modelled from the spec: the macros \<^verbatim>\<open>REQUIRES\<close>, \<^verbatim>\<open>ENSURES\<close> and \<^verbatim>\<open>retIntError\<close> of
  \<^verbatim>\<open>crypt.h\<close>, which the source uses and does not define. A failed check is a precondition
  violation: an assertion in a debug build, and otherwise the function returns at once with
  the value its suffix names (\<^verbatim>\<open>_V\<close> nothing, \<^verbatim>\<open>_N\<close> \<^verbatim>\<open>NULL\<close>, \<^verbatim>\<open>_B\<close> FALSE), as
  \<^verbatim>\<open>retIntError_Null()\<close> at the end of \<^verbatim>\<open>BN_CTX_get_ext\<close> shows.

  How a call ends. \<open>Normal\<close>: it ran to its last statement (or to an ordinary
  \<^verbatim>\<open>return\<close>). \<open>IntError\<close>: a check failed and the function left through
  \<^verbatim>\<open>retIntError\<close>; the payload is what the caller sees, with every write made before the
  check. \<open>Undefined\<close>: the call indexes an array outside its bounds, where C promises
  nothing.
\<close>

datatype 'a outcome = Normal 'a | IntError 'a | Undefined

text \<open>
  Modelled from the spec: \<^verbatim>\<open>TRUE\<close> and \<^verbatim>\<open>FALSE\<close> of \<^verbatim>\<open>crypt.h\<close>, the truth values of the
  sign flag. \<^verbatim>\<open>BN_clear\<close> writes 0 for "not negative", so \<^verbatim>\<open>FALSE\<close> is 0; \<^verbatim>\<open>TRUE\<close> is C's 1.
\<close>

definition TRUE :: int where "TRUE = 1"
definition FALSE :: int where "FALSE = 0"

text \<open>The value a \<^verbatim>\<open>BOOLEAN\<close> function hands back: \<^verbatim>\<open>retIntError_Boolean\<close> returns FALSE.\<close>

fun retval_B :: "bool outcome \<Rightarrow> bool option" where
  "retval_B (Normal r) = Some r"
| "retval_B (IntError r) = Some False"
| "retval_B Undefined = None"

text \<open>
  What a call leaves behind when the caller does not look at how it ended (a \<^verbatim>\<open>void\<close>
  call, or a result that is ignored).
\<close>

fun payload :: "'a outcome \<Rightarrow> 'a option" where
  "payload (Normal x) = Some x"
| "payload (IntError x) = Some x"
| "payload Undefined = None"

text \<open>C's integer division and remainder truncate towards zero.\<close>

definition c_div :: "int \<Rightarrow> int \<Rightarrow> int" where
  "c_div a b = sgn a * sgn b * (\<bar>a\<bar> div \<bar>b\<bar>)"

definition c_mod :: "int \<Rightarrow> int \<Rightarrow> int" where
  "c_mod a b = a - b * c_div a b"

text \<open>
  Modelled from the spec: \<^verbatim>\<open>BN_BITS2\<close> and \<^verbatim>\<open>bnWordsToBits\<close> of \<^verbatim>\<open>bn.h\<close>, the number of bits
  of a \<^verbatim>\<open>BN_ULONG\<close> and of \<open>n\<close> such words. The bignum argument only fixes the word type.
\<close>

definition BN_BITS2 :: "'w::len word BIGNUM \<Rightarrow> int" where
  "BN_BITS2 bignum = int LENGTH('w)"

definition bnWordsToBits :: "'w::len word BIGNUM \<Rightarrow> int \<Rightarrow> int" where
  "bnWordsToBits bignum n = n * BN_BITS2 bignum"

text \<open>\<^verbatim>\<open>flags & BN_FLG_x\<close> used as a condition.\<close>

definition flag_set :: "int \<Rightarrow> int \<Rightarrow> bool" where
  "flag_set fl msk = (fl AND msk \<noteq> 0)"

section \<open>Utility functions\<close>

definition getBNMaxSize :: "bn_consts \<Rightarrow> 'w::len word BIGNUM \<Rightarrow> int" where
  "getBNMaxSize K bignum =
     (if flag_set (flags bignum) (BN_FLG_ALLOC_EXT K) then BIGNUM_ALLOC_WORDS_EXT K
      else if flag_set (flags bignum) (BN_FLG_ALLOC_EXT2 K) then BIGNUM_ALLOC_WORDS_EXT2 K
      else BIGNUM_ALLOC_WORDS K)"

definition sanityCheckBignum :: "bn_consts \<Rightarrow> 'w::len word BIGNUM \<Rightarrow> bool" where
  "sanityCheckBignum K bignum =
     (if dmax bignum < 1 \<or> dmax bignum > getBNMaxSize K bignum then False
      else if bn_top bignum < 0 \<or> bn_top bignum > dmax bignum then False
      else if neg bignum \<noteq> TRUE \<and> neg bignum \<noteq> FALSE then False
      else if flags bignum < BN_FLG_NONE K \<or> flags bignum > BN_FLG_MAX K then False
      else True)"

definition sanityCheckBNCTX :: "bn_consts \<Rightarrow> 'w::len word BN_CTX \<Rightarrow> bool" where
  "sanityCheckBNCTX K bnCTX =
     (if bnArrayMax bnCTX < 0 \<or> bnArrayMax bnCTX > BN_CTX_ARRAY_SIZE K then False
      else if stackPos bnCTX < 0 \<or> stackPos bnCTX \<ge> BN_CTX_ARRAY_SIZE K then False
      else True)"

section \<open>Miscellaneous bignum routines\<close>

text \<open>
  \<^verbatim>\<open>zeroise( bignum->d, bnWordsToBytes( bignum->dmax ) )\<close> overwrites the first
  \<open>dmax\<close> words; the array must hold that many.
\<close>

definition BN_clear :: "bn_consts \<Rightarrow> 'w::len word BIGNUM \<Rightarrow> 'w word BIGNUM outcome" where
  "BN_clear K bignum =
     (if \<not> sanityCheckBignum K bignum then IntError bignum
      else if \<not> flag_set (flags bignum) (BN_FLG_STATIC_DATA K) then
        (if nat (dmax bignum) \<le> length (bn_d bignum) then
           Normal (bignum\<lparr>bn_d := replicate (nat (dmax bignum)) 0 @ drop (nat (dmax bignum)) (bn_d bignum),
                          bn_top := 0, neg := 0\<rparr>)
         else Undefined)
      else Normal bignum)"

text \<open>\<^verbatim>\<open>BN_init\<close> fills the object with zero bytes and sets its size.\<close>

definition BN_init :: "bn_consts \<Rightarrow> 'w::len word BIGNUM" where
  "BN_init K = \<lparr>dmax = BIGNUM_ALLOC_WORDS K, bn_top = 0, neg = 0, flags = 0,
                bn_d = replicate (nat (BIGNUM_ALLOC_WORDS K)) 0\<rparr>"

definition BN_init_ext :: "bn_consts \<Rightarrow> bool \<Rightarrow> 'w::len word BIGNUM" where
  "BN_init_ext K isExt2Bignum =
     (if isExt2Bignum then
        \<lparr>dmax = BIGNUM_ALLOC_WORDS_EXT2 K, bn_top = 0, neg = 0, flags = BN_FLG_ALLOC_EXT2 K,
         bn_d = replicate (nat (BIGNUM_ALLOC_WORDS_EXT2 K)) 0\<rparr>
      else
        \<lparr>dmax = BIGNUM_ALLOC_WORDS_EXT K, bn_top = 0, neg = 0, flags = BN_FLG_ALLOC_EXT K,
         bn_d = replicate (nat (BIGNUM_ALLOC_WORDS_EXT K)) 0\<rparr>)"

text \<open>
  \<^verbatim>\<open>BN_copy\<close>: three checks, then \<^verbatim>\<open>memcpy\<close> of \<open>top\<close> words of the source, its
  \<open>top\<close> and its sign. The result is the destination; \<open>IntError\<close> stands for the
  \<^verbatim>\<open>NULL\<close> of \<^verbatim>\<open>REQUIRES_N\<close>, with the destination as it was.
\<close>

definition BN_copy :: "bn_consts \<Rightarrow> 'w::len word BIGNUM \<Rightarrow> 'w word BIGNUM \<Rightarrow> 'w word BIGNUM outcome" where
  "BN_copy K destBignum srcBignum =
     (if \<not> sanityCheckBignum K destBignum then IntError destBignum
      else if \<not> sanityCheckBignum K srcBignum then IntError destBignum
      else if \<not> dmax destBignum \<ge> bn_top srcBignum then IntError destBignum
      else if nat (bn_top srcBignum) \<le> length (bn_d srcBignum)
            \<and> nat (bn_top srcBignum) \<le> length (bn_d destBignum) then
        Normal (destBignum\<lparr>bn_d := take (nat (bn_top srcBignum)) (bn_d srcBignum)
                                      @ drop (nat (bn_top srcBignum)) (bn_d destBignum),
                           bn_top := bn_top srcBignum, neg := neg srcBignum\<rparr>)
      else Undefined)"

text \<open>
  \<^verbatim>\<open>BN_swap\<close> tests the flags of \<^verbatim>\<open>bignum1\<close> in both of its \<^verbatim>\<open>REQUIRES_V\<close> lines,
  then copies through a local \<^verbatim>\<open>tmp\<close>; a copy that returns \<^verbatim>\<open>NULL\<close> stops the chain and
  the final \<^verbatim>\<open>ENSURES_V\<close> fails. The result is the pair of operands. Clearing the local
  \<^verbatim>\<open>tmp\<close> before the return changes neither of them.
\<close>

definition BN_swap ::
  "bn_consts \<Rightarrow> 'w::len word BIGNUM \<Rightarrow> 'w word BIGNUM \<Rightarrow> ('w word BIGNUM \<times> 'w word BIGNUM) outcome" where
  "BN_swap K bignum1 bignum2 =
     (if flag_set (flags bignum1) (BN_FLG_STATIC_DATA K) then IntError (bignum1, bignum2)
      else if flag_set (flags bignum1) (BN_FLG_STATIC_DATA K) then IntError (bignum1, bignum2)
      else
        (case BN_copy K (BN_init K) bignum1 of
           Undefined \<Rightarrow> Undefined
         | IntError tmp \<Rightarrow> IntError (bignum1, bignum2)
         | Normal tmp \<Rightarrow>
             (case BN_copy K bignum1 bignum2 of
                Undefined \<Rightarrow> Undefined
              | IntError b1 \<Rightarrow> IntError (b1, bignum2)
              | Normal b1 \<Rightarrow>
                  (case BN_copy K bignum2 tmp of
                     Undefined \<Rightarrow> Undefined
                   | IntError b2 \<Rightarrow> IntError (b1, b2)
                   | Normal b2 \<Rightarrow> Normal (b1, b2)))))"

text \<open>The static constant one: \<^verbatim>\<open>{ BIGNUM_ALLOC_WORDS, 1, FALSE, BN_FLG_STATIC_DATA, { 1, 0, 0, 0 } }\<close>.\<close>

definition BN_value_one :: "bn_consts \<Rightarrow> 'w::len word BIGNUM" where
  "BN_value_one K = \<lparr>dmax = BIGNUM_ALLOC_WORDS K, bn_top = 1, neg = FALSE,
                     flags = BN_FLG_STATIC_DATA K,
                     bn_d = 1 # replicate (nat (BIGNUM_ALLOC_WORDS K) - 1) 0\<rparr>"

section \<open>Manipulating bignum values\<close>

definition BN_set_word :: "bn_consts \<Rightarrow> 'w::len word BIGNUM \<Rightarrow> 'w word \<Rightarrow> 'w word BIGNUM outcome" where
  "BN_set_word K bignum word =
     (if \<not> sanityCheckBignum K bignum then IntError bignum
      else if flag_set (flags bignum) (BN_FLG_STATIC_DATA K) then IntError bignum
      else
        (case payload (BN_clear K bignum) of
           None \<Rightarrow> Undefined
         | Some b \<Rightarrow>
             (if 0 < length (bn_d b) then
                Normal (b\<lparr>bn_d := (bn_d b)[0 := word], bn_top := (if word \<noteq> 0 then 1 else 0)\<rparr>)
              else Undefined)))"

text \<open>
  The loop of \<^verbatim>\<open>BN_set_bit\<close>:
  \<^verbatim>\<open>for( index = bignum->top; index < wordIndex + 1; index++ ) bignum->d[ index ] = 0;\<close>
  It returns the array and the final \<open>index\<close>, or \<open>None\<close> when it writes outside the array.
\<close>

function set_bit_loop :: "'a::zero list \<Rightarrow> int \<Rightarrow> int \<Rightarrow> ('a list \<times> int) option" where
  "set_bit_loop ds index limit =
     (if index < limit then
        (if 0 \<le> index \<and> nat index < length ds then set_bit_loop (ds[nat index := 0]) (index + 1) limit
         else None)
      else Some (ds, index))"
  by pat_completeness auto
termination
  by (relation "measure (\<lambda>(ds, index, limit). nat (limit - index))") auto

declare set_bit_loop.simps [simp del]

definition BN_set_bit :: "bn_consts \<Rightarrow> 'w::len word BIGNUM \<Rightarrow> int \<Rightarrow> 'w word BIGNUM outcome" where
  "BN_set_bit K bignum bitNo =
     (let wordIndex = c_div bitNo (BN_BITS2 bignum);
          bitIndex = c_mod bitNo (BN_BITS2 bignum);
          iterationBound = getBNMaxSize K bignum
      in
      if \<not> sanityCheckBignum K bignum then IntError bignum
      else if flag_set (flags bignum) (BN_FLG_STATIC_DATA K) then IntError bignum
      else if \<not> (bitNo \<ge> 0 \<and> bitNo < bnWordsToBits bignum (dmax bignum)) then IntError bignum
      else
        (case (if bn_top bignum < wordIndex + 1 then
                 (if \<not> wordIndex < dmax bignum then IntError bignum
                  else
                    (case set_bit_loop (bn_d bignum) (bn_top bignum) (wordIndex + 1) of
                       None \<Rightarrow> Undefined
                     | Some (ds, index) \<Rightarrow>
                         (if \<not> index < iterationBound then IntError (bignum\<lparr>bn_d := ds\<rparr>)
                          else Normal (bignum\<lparr>bn_d := ds, bn_top := wordIndex + 1\<rparr>))))
               else Normal bignum) of
           Undefined \<Rightarrow> Undefined
         | IntError b \<Rightarrow> IntError b
         | Normal b \<Rightarrow>
             (if 0 \<le> wordIndex \<and> nat wordIndex < length (bn_d b) then
                (let b' = b\<lparr>bn_d := (bn_d b)[nat wordIndex :=
                                         (bn_d b ! nat wordIndex) OR push_bit (nat bitIndex) 1]\<rparr>
                 in if \<not> sanityCheckBignum K b' then IntError b' else Normal b')
              else Undefined)))"

definition BN_is_bit_set :: "bn_consts \<Rightarrow> 'w::len word BIGNUM \<Rightarrow> int \<Rightarrow> bool outcome" where
  "BN_is_bit_set K bignum bitNo =
     (let wordIndex = c_div bitNo (BN_BITS2 bignum);
          bitIndex = c_mod bitNo (BN_BITS2 bignum)
      in
      if \<not> sanityCheckBignum K bignum then IntError False
      else if \<not> bitNo < bnWordsToBits bignum (dmax bignum) then IntError False
      else if bitNo < 0 then Normal False
      else if wordIndex \<ge> bn_top bignum then Normal False
      else if 0 \<le> wordIndex \<and> nat wordIndex < length (bn_d bignum) then
        Normal ((bn_d bignum ! nat wordIndex) AND push_bit (nat bitIndex) 1 \<noteq> 0)
      else Undefined)"

text \<open>
  Modelled from the spec: the macro \<^verbatim>\<open>BN_is_zero\<close> of \<^verbatim>\<open>bn.h\<close>, which the source uses
  and does not define. The spec's canonical zero has \<open>top == 0\<close>, and the comments of
  \<^verbatim>\<open>BN_get_word\<close> and \<^verbatim>\<open>BN_num_bits\<close> say the same: a bignum of value zero has length zero.
\<close>

definition BN_is_zero :: "'a BIGNUM \<Rightarrow> bool" where
  "BN_is_zero bignum = (bn_top bignum = 0)"

definition BN_set_negative :: "'a BIGNUM \<Rightarrow> int \<Rightarrow> 'a BIGNUM" where
  "BN_set_negative bignum val =
     (if BN_is_zero bignum then bignum
      else bignum\<lparr>neg := (if val \<noteq> 0 then TRUE else FALSE)\<rparr>)"

text \<open>
  The loop of \<^verbatim>\<open>BN_normalise\<close>, on \<open>top\<close> and \<open>iterationCount\<close>: it stops at a nonzero
  word \<open>d[top - 1]\<close>, at \<open>top = 0\<close> or at the bound, and returns both counters.
\<close>

function normalise_loop :: "'a::zero list \<Rightarrow> int \<Rightarrow> int \<Rightarrow> int \<Rightarrow> (int \<times> int) option" where
  "normalise_loop ds tp iterationCount iterationBound =
     (if tp > 0 \<and> iterationCount < iterationBound then
        (if nat (tp - 1) < length ds then
           (if ds ! nat (tp - 1) \<noteq> 0 then Some (tp, iterationCount)
            else normalise_loop ds (tp - 1) (iterationCount + 1) iterationBound)
         else None)
      else Some (tp, iterationCount))"
  by pat_completeness auto
termination
  by (relation "measure (\<lambda>(ds, tp, iterationCount, iterationBound). nat tp)") auto

declare normalise_loop.simps [simp del]

definition BN_normalise :: "bn_consts \<Rightarrow> 'w::len word BIGNUM \<Rightarrow> 'w word BIGNUM outcome" where
  "BN_normalise K bignum =
     (let iterationBound = getBNMaxSize K bignum in
      if \<not> sanityCheckBignum K bignum then IntError bignum
      else if BN_is_zero bignum then Normal bignum
      else
        (case normalise_loop (bn_d bignum) (bn_top bignum) 0 iterationBound of
           None \<Rightarrow> Undefined
         | Some (tp, iterationCount) \<Rightarrow>
             (let b' = bignum\<lparr>bn_top := tp\<rparr> in
              if \<not> iterationCount < iterationBound then IntError b'
              else if \<not> sanityCheckBignum K b' then IntError b'
              else Normal b')))"

section \<open>BN_CTX support routines\<close>

text \<open>
  \<^verbatim>\<open>BN_CTX_init\<close>: \<^verbatim>\<open>memset\<close> of the whole context, then \<^verbatim>\<open>BN_init\<close> or
  \<^verbatim>\<open>BN_init_ext\<close> on every element of the three arrays.
\<close>

definition BN_CTX_init :: "bn_consts \<Rightarrow> 'w::len word BN_CTX" where
  "BN_CTX_init K =
     \<lparr>bnArray = replicate (nat (BN_CTX_ARRAY_SIZE K)) (BN_init K),
      bnExtArray = replicate (nat (BN_CTX_EXTARRAY_SIZE K)) (BN_init_ext K False),
      bnExt2Array = replicate (nat (BN_CTX_EXT2ARRAY_SIZE K)) (BN_init_ext K True),
      bnArrayMax = 0,
      stack = replicate (nat (BN_CTX_ARRAY_SIZE K)) 0,
      stackPos = 0\<rparr>"

definition BN_CTX_final :: "bn_consts \<Rightarrow> 'w::len word BN_CTX \<Rightarrow> 'w word BN_CTX outcome" where
  "BN_CTX_final K bnCTX =
     (if \<not> sanityCheckBNCTX K bnCTX then IntError bnCTX else Normal (BN_CTX_init K))"

text \<open>
  \<^verbatim>\<open>BN_CTX_start\<close> increments \<^verbatim>\<open>stackPos\<close> and copies the previous frame top into the
  new entry; the entry must lie inside \<^verbatim>\<open>stack[]\<close>.
\<close>

definition BN_CTX_start :: "bn_consts \<Rightarrow> 'w::len word BN_CTX \<Rightarrow> 'w word BN_CTX outcome" where
  "BN_CTX_start K bnCTX =
     (if \<not> sanityCheckBNCTX K bnCTX then IntError bnCTX
      else
        (let sp = stackPos bnCTX + 1 in
         if 0 \<le> sp - 1 \<and> nat sp < length (stack bnCTX) then
           (let c = bnCTX\<lparr>stackPos := sp,
                           stack := (stack bnCTX)[nat sp := stack bnCTX ! nat (sp - 1)]\<rparr>
            in if \<not> sanityCheckBNCTX K c then IntError c else Normal c)
         else Undefined))"

text \<open>
  The loop of \<^verbatim>\<open>BN_CTX_end\<close>:
  \<^verbatim>\<open>for( i = lo; i < hi && i < BN_CTX_ARRAY_SIZE; i++ ) BN_clear( &bnCTX->bnArray[ i ] );\<close>
  It returns the array and the final \<open>i\<close>.
\<close>

function end_loop ::
  "bn_consts \<Rightarrow> 'w::len word BIGNUM list \<Rightarrow> int \<Rightarrow> int \<Rightarrow> ('w word BIGNUM list \<times> int) option" where
  "end_loop K arr i hi =
     (if i < hi \<and> i < BN_CTX_ARRAY_SIZE K then
        (if 0 \<le> i \<and> nat i < length arr then
           (case payload (BN_clear K (arr ! nat i)) of
              None \<Rightarrow> None
            | Some b \<Rightarrow> end_loop K (arr[nat i := b]) (i + 1) hi)
         else None)
      else Some (arr, i))"
  by pat_completeness auto
termination
  by (relation "measure (\<lambda>(K, arr, i, hi). nat (hi - i))") auto

declare end_loop.simps [simp del]

definition BN_CTX_end :: "bn_consts \<Rightarrow> 'w::len word BN_CTX \<Rightarrow> 'w word BN_CTX outcome" where
  "BN_CTX_end K bnCTX =
     (let sp = stackPos bnCTX in
      if \<not> sanityCheckBNCTX K bnCTX then IntError bnCTX
      else if \<not> (0 \<le> sp - 1 \<and> nat sp < length (stack bnCTX)) then Undefined
      else if \<not> stack bnCTX ! nat (sp - 1) \<le> stack bnCTX ! nat sp then IntError bnCTX
      else
        (case end_loop K (bnArray bnCTX) (stack bnCTX ! nat (sp - 1)) (stack bnCTX ! nat sp) of
           None \<Rightarrow> Undefined
         | Some (arr, i) \<Rightarrow>
             (let c1 = bnCTX\<lparr>bnArray := arr\<rparr> in
              if \<not> i < BN_CTX_ARRAY_SIZE K then IntError c1
              else
                (let c2 = c1\<lparr>stack := (stack c1)[nat sp := 0], stackPos := sp - 1\<rparr>
                 in if \<not> sanityCheckBNCTX K c2 then IntError c2 else Normal c2))))"

text \<open>
  \<^verbatim>\<open>BN_CTX_get\<close> reads \<^verbatim>\<open>stack[ stackPos ]\<close> in the initialiser of \<^verbatim>\<open>arrayIndex\<close>,
  before any check. The overflow test is on \<^verbatim>\<open>bnArrayMax\<close>. The result is the pointer
  (\<^verbatim>\<open>&bnCTX->bnArray[ arrayIndex - 1 ]\<close>, or \<^verbatim>\<open>NULL\<close>) and the context.
\<close>

definition BN_CTX_get ::
  "bn_consts \<Rightarrow> 'w::len word BN_CTX \<Rightarrow> (bn_ptr option \<times> 'w word BN_CTX) outcome" where
  "BN_CTX_get K bnCTX =
     (let sp = stackPos bnCTX in
      if \<not> (0 \<le> sp \<and> nat sp < length (stack bnCTX)) then Undefined
      else
        (let arrayIndex = stack bnCTX ! nat sp + 1 in
         if bnArrayMax bnCTX \<ge> BN_CTX_ARRAY_SIZE K then Normal (None, bnCTX)
         else if \<not> sanityCheckBNCTX K bnCTX then IntError (None, bnCTX)
         else
           (let c1 = bnCTX\<lparr>stack := (stack bnCTX)[nat sp := arrayIndex]\<rparr>;
                c2 = (if arrayIndex > bnArrayMax c1 then c1\<lparr>bnArrayMax := arrayIndex\<rparr> else c1)
            in if \<not> sanityCheckBNCTX K c2 then IntError (None, c2)
               else Normal (Some (Pool (arrayIndex - 1)), c2))))"

text \<open>
  The values of \<^verbatim>\<open>enum BIGNUM_EXT_TYPE\<close>, with \<^verbatim>\<open>_NONE\<close> first and \<^verbatim>\<open>_LAST\<close> last as
  the range check of \<^verbatim>\<open>BN_CTX_get_ext\<close> expects.
\<close>

fun enum_val :: "BIGNUM_EXT_TYPE \<Rightarrow> int" where
  "enum_val BIGNUM_EXT_NONE = 0"
| "enum_val BIGNUM_EXT_MONT = 1"
| "enum_val BIGNUM_EXT_MUL1 = 2"
| "enum_val BIGNUM_EXT_MUL2 = 3"
| "enum_val BIGNUM_EXT_LAST = 4"

definition BN_CTX_get_ext ::
  "'w::len word BN_CTX \<Rightarrow> BIGNUM_EXT_TYPE \<Rightarrow> bn_ptr option outcome" where
  "BN_CTX_get_ext bnCTX bnExtType =
     (if \<not> (enum_val bnExtType > enum_val BIGNUM_EXT_NONE
             \<and> enum_val bnExtType < enum_val BIGNUM_EXT_LAST) then IntError None
      else
        (case bnExtType of
           BIGNUM_EXT_MONT \<Rightarrow> Normal (Some (Ext 0))
         | BIGNUM_EXT_MUL1 \<Rightarrow> Normal (Some (Ext2 0))
         | BIGNUM_EXT_MUL2 \<Rightarrow> Normal (Some (Ext2 1))
         | _ \<Rightarrow> IntError None))"

text \<open>Reading and writing the bignum a pointer refers to.\<close>

fun deref :: "'a BN_CTX \<Rightarrow> bn_ptr \<Rightarrow> 'a BIGNUM option" where
  "deref c (Pool i) = (if 0 \<le> i \<and> nat i < length (bnArray c) then Some (bnArray c ! nat i) else None)"
| "deref c (Ext i) = (if 0 \<le> i \<and> nat i < length (bnExtArray c) then Some (bnExtArray c ! nat i) else None)"
| "deref c (Ext2 i) = (if 0 \<le> i \<and> nat i < length (bnExt2Array c) then Some (bnExt2Array c ! nat i) else None)"

fun store :: "'a BN_CTX \<Rightarrow> bn_ptr \<Rightarrow> 'a BIGNUM \<Rightarrow> 'a BN_CTX" where
  "store c (Pool i) b = c\<lparr>bnArray := (bnArray c)[nat i := b]\<rparr>"
| "store c (Ext i) b = c\<lparr>bnExtArray := (bnExtArray c)[nat i := b]\<rparr>"
| "store c (Ext2 i) b = c\<lparr>bnExt2Array := (bnExt2Array c)[nat i := b]\<rparr>"

text \<open>\<^verbatim>\<open>BN_clear( BN_CTX_get_ext( bnCTX, type ) )\<close>: the call on the bignum inside the context.\<close>

definition clear_ext :: "bn_consts \<Rightarrow> 'w::len word BN_CTX \<Rightarrow> BIGNUM_EXT_TYPE \<Rightarrow> 'w word BN_CTX option" where
  "clear_ext K c bnExtType =
     (case payload (BN_CTX_get_ext c bnExtType) of
        Some (Some p) \<Rightarrow>
          (case deref c p of
             None \<Rightarrow> None
           | Some b \<Rightarrow>
               (case payload (BN_clear K b) of
                  None \<Rightarrow> None
                | Some b' \<Rightarrow> Some (store c p b')))
      | _ \<Rightarrow> None)"

definition BN_CTX_end_ext ::
  "bn_consts \<Rightarrow> 'w::len word BN_CTX \<Rightarrow> BIGNUM_EXT_TYPE \<Rightarrow> 'w word BN_CTX outcome" where
  "BN_CTX_end_ext K bnCTX bnExtType =
     (case payload (BN_CTX_end K bnCTX) of
        None \<Rightarrow> Undefined
      | Some c \<Rightarrow>
          (if \<not> (bnExtType = BIGNUM_EXT_MUL1 \<or> bnExtType = BIGNUM_EXT_MONT) then IntError c
           else if bnExtType = BIGNUM_EXT_MUL1 then
             (case clear_ext K c BIGNUM_EXT_MUL1 of
                None \<Rightarrow> Undefined
              | Some c1 \<Rightarrow>
                  (case clear_ext K c1 BIGNUM_EXT_MUL2 of
                     None \<Rightarrow> Undefined
                   | Some c2 \<Rightarrow> Normal c2))
           else
             (case clear_ext K c BIGNUM_EXT_MONT of
                None \<Rightarrow> Undefined
              | Some c1 \<Rightarrow> Normal c1)))"

section \<open>Values, invariants and a small configuration\<close>

text \<open>
  The magnitude a bignum stands for: its first \<open>top\<close> words, least significant first,
  in base \<open>2 ^ BN_BITS2\<close>. The sign is the field \<open>neg\<close>.
\<close>

fun words_value :: "'w::len word list \<Rightarrow> nat" where
  "words_value [] = 0"
| "words_value (x # xs) = unat x + 2 ^ LENGTH('w) * words_value xs"

definition bn_value :: "'w::len word BIGNUM \<Rightarrow> nat" where
  "bn_value bignum = words_value (take (nat (bn_top bignum)) (bn_d bignum))"

text \<open>Canonical zero: a bignum whose value is zero has \<open>top = 0\<close> and is not negative.\<close>

definition canonical_zero :: "'w::len word BIGNUM \<Rightarrow> bool" where
  "canonical_zero bignum = (bn_value bignum = 0 \<longrightarrow> bn_top bignum = 0 \<and> neg bignum = FALSE)"

text \<open>The array \<^verbatim>\<open>d[]\<close> of a bignum holds at least \<open>dmax\<close> words.\<close>

definition bn_storage :: "'a BIGNUM \<Rightarrow> bool" where
  "bn_storage bignum = (nat (dmax bignum) \<le> length (bn_d bignum))"

text \<open>A bignum of a pool: it passes the sanity check, has its storage and is not static data.\<close>

definition pool_bn :: "bn_consts \<Rightarrow> 'w::len word BIGNUM \<Rightarrow> bool" where
  "pool_bn K bignum =
     (sanityCheckBignum K bignum \<and> bn_storage bignum
      \<and> \<not> flag_set (flags bignum) (BN_FLG_STATIC_DATA K))"

text \<open>What \<^verbatim>\<open>BN_clear\<close> leaves: no used word, no sign, and \<open>dmax\<close> zero words.\<close>

definition cleared :: "'w::len word BIGNUM \<Rightarrow> bool" where
  "cleared bignum =
     (bn_top bignum = 0 \<and> neg bignum = 0
      \<and> take (nat (dmax bignum)) (bn_d bignum) = replicate (nat (dmax bignum)) 0)"

text \<open>The top of the current frame, \<^verbatim>\<open>stack[ stackPos ]\<close>.\<close>

definition frame_top :: "'a BN_CTX \<Rightarrow> int" where
  "frame_top c = stack c ! nat (stackPos c)"

text \<open>
  The invariant of a context between calls. Both arrays have \<^verbatim>\<open>BN_CTX_ARRAY_SIZE\<close>
  elements; the context passes its sanity check; the frame tops up to the current depth
  are non-decreasing and lie between 0 and \<^verbatim>\<open>bnArrayMax\<close>; the last-used position reaches
  the array size only with the current frame; every pool element is a pool bignum.
  \<^verbatim>\<open>BN_CTX_init\<close> establishes it, and start, get and end keep it (proved below).
\<close>

definition ctx_inv :: "bn_consts \<Rightarrow> 'w::len word BN_CTX \<Rightarrow> bool" where
  "ctx_inv K c =
     (length (bnArray c) = nat (BN_CTX_ARRAY_SIZE K)
      \<and> length (stack c) = nat (BN_CTX_ARRAY_SIZE K)
      \<and> sanityCheckBNCTX K c
      \<and> list_all (\<lambda>x. 0 \<le> x \<and> x \<le> bnArrayMax c) (take (nat (stackPos c) + 1) (stack c))
      \<and> sorted (take (nat (stackPos c) + 1) (stack c))
      \<and> (bnArrayMax c < BN_CTX_ARRAY_SIZE K \<or> frame_top c = BN_CTX_ARRAY_SIZE K)
      \<and> list_all (pool_bn K) (bnArray c))"

text \<open>
  A small configuration on which the definitions are evaluated: four words per bignum
  (as many as the initialiser of \<^verbatim>\<open>BN_value_one\<close> lists), a pool of eight, one and two
  extended bignums, and the flags on separate bits.
\<close>

definition example_consts :: bn_consts where
  "example_consts =
     \<lparr>BIGNUM_ALLOC_WORDS = 4, BIGNUM_ALLOC_WORDS_EXT = 8, BIGNUM_ALLOC_WORDS_EXT2 = 16,
      BN_CTX_ARRAY_SIZE = 8, BN_CTX_EXTARRAY_SIZE = 1, BN_CTX_EXT2ARRAY_SIZE = 2,
      BN_FLG_NONE = 0, BN_FLG_MAX = 31, BN_FLG_MALLOCED = 1, BN_FLG_STATIC_DATA = 2,
      BN_FLG_ALLOC_EXT = 8, BN_FLG_ALLOC_EXT2 = 16\<rparr>"

text \<open>A bignum of four 32-bit words with the given fields, for the evaluations.\<close>

definition bn32 :: "int \<Rightarrow> int \<Rightarrow> int \<Rightarrow> 32 word list \<Rightarrow> 32 word BIGNUM" where
  "bn32 tp ng fl ws = \<lparr>dmax = 4, bn_top = tp, neg = ng, flags = fl, bn_d = ws\<rparr>"

section \<open>Call sequences of a user of the context\<close>

text \<open>
  The caller's statement \<^verbatim>\<open>BN_set_word( p, w )\<close> on a pointer into the context. \<open>None\<close>
  when the pointer is outside its array or the call does not return TRUE.
\<close>

definition set_word_at ::
  "bn_consts \<Rightarrow> 'w::len word BN_CTX \<Rightarrow> bn_ptr \<Rightarrow> 'w word \<Rightarrow> 'w word BN_CTX option" where
  "set_word_at K c p w =
     (case deref c p of
        None \<Rightarrow> None
      | Some b \<Rightarrow> (case BN_set_word K b w of Normal b' \<Rightarrow> Some (store c p b') | _ \<Rightarrow> None))"

text \<open>
  For each word of the list, one \<^verbatim>\<open>BN_CTX_get\<close> and a \<^verbatim>\<open>BN_set_word\<close> of that word on the
  bignum returned. \<open>None\<close> when a call returns \<^verbatim>\<open>NULL\<close> or does not end normally.
\<close>

fun fill :: "bn_consts \<Rightarrow> 'w::len word BN_CTX \<Rightarrow> 'w word list \<Rightarrow> 'w word BN_CTX option" where
  "fill K c [] = Some c"
| "fill K c (w # ws) =
     (case BN_CTX_get K c of
        Normal (Some p, c') \<Rightarrow>
          (case set_word_at K c' p w of None \<Rightarrow> None | Some c'' \<Rightarrow> fill K c'' ws)
      | _ \<Rightarrow> None)"

text \<open>
  \<open>n\<close> calls of \<^verbatim>\<open>BN_CTX_get\<close> in a row: the pointers returned, in order, and the
  context after the last call.
\<close>

fun get_n :: "bn_consts \<Rightarrow> 'w::len word BN_CTX \<Rightarrow> nat \<Rightarrow> (bn_ptr list \<times> 'w word BN_CTX) option" where
  "get_n K c 0 = Some ([], c)"
| "get_n K c (Suc n) =
     (case BN_CTX_get K c of
        Normal (Some p, c') \<Rightarrow>
          (case get_n K c' n of None \<Rightarrow> None | Some (ps, c'') \<Rightarrow> Some (p # ps, c''))
      | _ \<Rightarrow> None)"

text \<open>\<^verbatim>\<open>BN_CTX_start\<close> followed by the temporaries of one nesting level.\<close>

definition acquire :: "bn_consts \<Rightarrow> 'w::len word BN_CTX \<Rightarrow> 'w word list \<Rightarrow> 'w word BN_CTX option" where
  "acquire K c ws = (case BN_CTX_start K c of Normal c1 \<Rightarrow> fill K c1 ws | _ \<Rightarrow> None)"

text \<open>
  The contexts a user can reach: from \<^verbatim>\<open>BN_CTX_init\<close> by start, get and end, whichever way
  the call ends, and by writing a pool bignum through a pointer into the pool.
\<close>

inductive reachable :: "bn_consts \<Rightarrow> 'w::len word BN_CTX \<Rightarrow> bool" for K where
  r_init: "reachable K (BN_CTX_init K)"
| r_start: "reachable K c \<Longrightarrow> payload (BN_CTX_start K c) = Some c' \<Longrightarrow> reachable K c'"
| r_get: "reachable K c \<Longrightarrow> payload (BN_CTX_get K c) = Some (p, c') \<Longrightarrow> reachable K c'"
| r_end: "reachable K c \<Longrightarrow> payload (BN_CTX_end K c) = Some c' \<Longrightarrow> reachable K c'"
| r_write: "reachable K c \<Longrightarrow> 0 \<le> i \<Longrightarrow> i < BN_CTX_ARRAY_SIZE K \<Longrightarrow> pool_bn K b
             \<Longrightarrow> reachable K (store c (Pool i) b)"

text \<open>
  States of the small configuration: the pool with the given contents and bookkeeping,
  the extended pools as \<^verbatim>\<open>BN_CTX_init\<close> leaves them unless given.
\<close>

definition example_ctx :: "32 word BIGNUM list \<Rightarrow> int \<Rightarrow> int list \<Rightarrow> int \<Rightarrow> 32 word BN_CTX" where
  "example_ctx arr mx stk sp =
     (BN_CTX_init example_consts)\<lparr>bnArray := arr, bnArrayMax := mx, stack := stk, stackPos := sp\<rparr>"

definition word_bn :: "32 word \<Rightarrow> 32 word BIGNUM" where
  "word_bn w = bn32 1 0 0 [w, 0, 0, 0]"

definition zero_bn :: "32 word BIGNUM" where
  "zero_bn = bn32 0 0 0 [0, 0, 0, 0]"

text \<open>One checkpoint whose eight temporaries \<open>1, \<dots>, 8\<close> fill the pool.\<close>

definition full_pool :: "32 word BN_CTX" where
  "full_pool = example_ctx (map word_bn [1, 2, 3, 4, 5, 6, 7, 8]) 8 [0, 8, 0, 0, 0, 0, 0, 0] 1"

text \<open>Three nested checkpoints with three, three and two temporaries, the last one filling the pool.\<close>

definition three_levels :: "32 word BN_CTX" where
  "three_levels = example_ctx (map word_bn [1, 2, 3, 4, 5, 6, 7, 8]) 8 [0, 3, 6, 8, 0, 0, 0, 0] 3"

text \<open>
  An open checkpoint with no temporaries, and the MUL2 slot (\<^verbatim>\<open>bnExt2Array[ 1 ]\<close>) holding
  the value 7.
\<close>

definition mul2_in_use :: "32 word BN_CTX" where
  "mul2_in_use =
     (example_ctx (replicate 8 zero_bn) 0 [0, 0, 0, 0, 0, 0, 0, 0] 1)
       \<lparr>bnExt2Array := [BN_init_ext example_consts True,
                        (BN_init_ext example_consts True)
                          \<lparr>bn_top := 1, bn_d := 7 # replicate 15 0\<rparr>]\<rparr>"

section \<open>The fixed extended slots\<close>

text \<open>
  Claim C10. For each of the purpose tags MONT, MUL1 and MUL2, \<^verbatim>\<open>BN_CTX_get_ext\<close> returns
  a pointer and never \<^verbatim>\<open>NULL\<close>, in every state of the context: MONT is element 0 of
  \<^verbatim>\<open>bnExtArray\<close>, MUL1 element 0 and MUL2 element 1 of \<^verbatim>\<open>bnExt2Array\<close>. The result does
  not depend on the context (no capacity or liveness test), and the call returns no new
  context, so a later call with the same tag gives the same slot.
\<close>

theorem BN_CTX_get_ext_fixed_slot:
  "BN_CTX_get_ext c BIGNUM_EXT_MONT = Normal (Some (Ext 0))
   \<and> BN_CTX_get_ext c BIGNUM_EXT_MUL1 = Normal (Some (Ext2 0))
   \<and> BN_CTX_get_ext c BIGNUM_EXT_MUL2 = Normal (Some (Ext2 1))"
  by (simp add: BN_CTX_get_ext_def)

section \<open>Evaluation on the small configuration\<close>

lemma replicate_numeral_eval: "replicate (numeral k) x = x # replicate (pred_numeral k) x"
  by (simp add: numeral_eq_Suc)

lemma list_update_numeral_eval: "(x # xs)[numeral k := y] = x # xs[pred_numeral k := y]"
  by (simp add: numeral_eq_Suc)

lemmas eval_bn = example_consts_def bn32_def sanityCheckBignum_def getBNMaxSize_def flag_set_def
  TRUE_def FALSE_def bn_storage_def pool_bn_def BN_init_def BN_BITS2_def bnWordsToBits_def
  c_div_def c_mod_def bn_value_def canonical_zero_def BN_value_one_def
  replicate_numeral_eval list_update_numeral_eval

section \<open>Bignum facts\<close>

lemma BITS2_pos: "0 < BN_BITS2 b"
  by (simp add: BN_BITS2_def)

lemma sane_bounds: "sanityCheckBignum K b \<Longrightarrow> 1 \<le> dmax b \<and> 0 \<le> bn_top b \<and> bn_top b \<le> dmax b \<and> dmax b \<le> getBNMaxSize K b"
  by (auto simp: sanityCheckBignum_def split: if_splits)

lemma words_value_zero_iff: "words_value xs = 0 \<longleftrightarrow> (\<forall>x\<in>set xs. x = 0)"
  by (induction xs) (auto simp: unat_eq_0)

lemma all_take_conv:
  "(\<forall>x\<in>set (take n xs). P x) \<longleftrightarrow> (\<forall>j. j < n \<and> j < length xs \<longrightarrow> P (xs ! j))"
  by (auto simp: all_set_conv_all_nth)

lemma bn_value_zero_iff:
  "bn_value b = 0 \<longleftrightarrow> (\<forall>j. j < nat (bn_top b) \<and> j < length (bn_d b) \<longrightarrow> bn_d b ! j = 0)"
  by (simp add: bn_value_def words_value_zero_iff all_take_conv)

lemma canonical_zero_init: "canonical_zero (BN_init K)"
  by (simp add: canonical_zero_def BN_init_def FALSE_def)

lemma BN_clear_cases:
  "payload (BN_clear K b) = Some b' \<Longrightarrow> b' = b \<or> (bn_top b' = 0 \<and> neg b' = 0)"
  by (auto simp: BN_clear_def split: if_splits)

lemma canonical_zero_clear:
  "canonical_zero b \<Longrightarrow> payload (BN_clear K b) = Some b' \<Longrightarrow> canonical_zero b'"
  using BN_clear_cases[of K b b'] by (auto simp: canonical_zero_def FALSE_def)

lemma BN_copy_cases:
  "payload (BN_copy K dest src) = Some dest' \<Longrightarrow>
     dest' = dest \<or> (bn_top dest' = bn_top src \<and> neg dest' = neg src \<and> bn_value dest' = bn_value src)"
  by (auto simp: BN_copy_def bn_value_def split: if_splits)

lemma canonical_zero_copy:
  "canonical_zero dest \<Longrightarrow> canonical_zero src \<Longrightarrow> payload (BN_copy K dest src) = Some dest'
     \<Longrightarrow> canonical_zero dest'"
  using BN_copy_cases[of K dest src dest'] by (auto simp: canonical_zero_def)

lemma payload_NormalD: "r = Normal x \<Longrightarrow> payload r = Some x"
  by simp

lemma payload_IntErrorD: "r = IntError x \<Longrightarrow> payload r = Some x"
  by simp

lemma canonical_zero_swap:
  assumes "canonical_zero b1" and "canonical_zero b2"
    and "payload (BN_swap K b1 b2) = Some (b1', b2')"
  shows "canonical_zero b1' \<and> canonical_zero b2'"
proof -
  have c: "\<And>d s d'. canonical_zero d \<Longrightarrow> canonical_zero s \<Longrightarrow> BN_copy K d s = Normal d' \<Longrightarrow> canonical_zero d'"
    "\<And>d s d'. canonical_zero d \<Longrightarrow> canonical_zero s \<Longrightarrow> BN_copy K d s = IntError d' \<Longrightarrow> canonical_zero d'"
    using canonical_zero_copy by (metis payload.simps(1), metis payload.simps(2))
  show ?thesis
    using assms canonical_zero_init[of K]
    by (auto simp: BN_swap_def split: if_splits outcome.splits dest: c)
qed

lemma canonical_zero_set_word:
  assumes "canonical_zero b" and "payload (BN_set_word K b w) = Some b'"
  shows "canonical_zero b'"
proof (cases "b' = b")
  case True with assms show ?thesis by simp
next
  case False
  with assms obtain c where c: "payload (BN_clear K b) = Some c"
    and b': "b' = c \<or> (0 < length (bn_d c) \<and> b' = c\<lparr>bn_d := (bn_d c)[0 := w], bn_top := (if w \<noteq> 0 then 1 else 0)\<rparr>)"
    by (auto simp: BN_set_word_def split: if_splits option.splits)
  have sane: "sanityCheckBignum K b" "\<not> flag_set (flags b) (BN_FLG_STATIC_DATA K)"
    using assms False by (auto simp: BN_set_word_def split: if_splits)
  then have cn: "neg c = 0 \<and> bn_top c = 0" using c by (auto simp: BN_clear_def split: if_splits)
  from b' show ?thesis
  proof
    assume "b' = c" then show ?thesis using cn by (simp add: canonical_zero_def FALSE_def)
  next
    assume h: "0 < length (bn_d c) \<and> b' = c\<lparr>bn_d := (bn_d c)[0 := w], bn_top := (if w \<noteq> 0 then 1 else 0)\<rparr>"
    show ?thesis
    proof (cases "w = 0")
      case True then show ?thesis using h cn by (simp add: canonical_zero_def FALSE_def)
    next
      case False
      then have "bn_value b' \<noteq> 0" using h
        by (auto simp: bn_value_zero_iff)
      then show ?thesis by (simp add: canonical_zero_def)
    qed
  qed
qed

lemma BN_set_word_zero:
  assumes "pool_bn K b"
  shows "\<exists>b'. BN_set_word K b 0 = Normal b' \<and> bn_top b' = 0 \<and> neg b' = FALSE \<and> bn_value b' = 0"
proof -
  have "0 < length (bn_d b)" using assms sane_bounds[of K b] by (auto simp: pool_bn_def bn_storage_def)
  then show ?thesis using assms
    by (auto simp: pool_bn_def bn_storage_def BN_set_word_def BN_clear_def FALSE_def bn_value_def)
qed

lemma canonical_zero_set_negative:
  "canonical_zero b \<Longrightarrow> canonical_zero (BN_set_negative b v)"
  by (auto simp: canonical_zero_def BN_set_negative_def BN_is_zero_def bn_value_def)

lemma set_negative_zero:
  "bn_top b = 0 \<Longrightarrow> BN_set_negative b v = b"
  by (simp add: BN_set_negative_def BN_is_zero_def)

lemma sanity_iff:
  "sanityCheckBignum K b \<longleftrightarrow>
     1 \<le> dmax b \<and> dmax b \<le> getBNMaxSize K b \<and> 0 \<le> bn_top b \<and> bn_top b \<le> dmax b
     \<and> (neg b = TRUE \<or> neg b = FALSE) \<and> BN_FLG_NONE K \<le> flags b \<and> flags b \<le> BN_FLG_MAX K"
  by (auto simp: sanityCheckBignum_def)

lemma getBNMaxSize_flags: "flags b' = flags b \<Longrightarrow> getBNMaxSize K b' = getBNMaxSize K b"
  by (simp add: getBNMaxSize_def)

lemma sanity_fields:
  "dmax b' = dmax b \<Longrightarrow> bn_top b' = bn_top b \<Longrightarrow> neg b' = neg b \<Longrightarrow> flags b' = flags b
     \<Longrightarrow> sanityCheckBignum K b' = sanityCheckBignum K b"
  by (simp add: sanity_iff getBNMaxSize_def)

lemma set_bit_loop_result:
  "set_bit_loop ds lo hi = Some (ds', idx) \<Longrightarrow>
     length ds' = length ds \<and> take (nat lo) ds' = take (nat lo) ds \<and> idx = max lo hi
     \<and> (\<forall>j. j < length ds \<and> \<not> (lo \<le> int j \<and> int j < hi) \<longrightarrow> ds' ! j = ds ! j)
     \<and> (\<forall>j. j < length ds \<and> lo \<le> int j \<and> int j < hi \<longrightarrow> ds' ! j = 0)"
proof (induction ds lo hi arbitrary: ds' idx rule: set_bit_loop.induct)
  case (1 ds index limit)
  show ?case
  proof (cases "index < limit")
    case False
    with "1.prems" show ?thesis by (subst (asm) set_bit_loop.simps) auto
  next
    case True
    with "1.prems" have rng: "0 \<le> index" "nat index < length ds"
      and rec: "set_bit_loop (ds[nat index := 0]) (index + 1) limit = Some (ds', idx)"
      by (subst (asm) set_bit_loop.simps, auto split: if_splits)+
    note ih = "1.IH"[OF True _ rec]
    have ih': "length ds' = length ds" "take (nat (index + 1)) ds' = take (nat (index + 1)) (ds[nat index := 0])"
      "idx = max (index + 1) limit"
      "\<And>j. j < length ds \<Longrightarrow> \<not> (index + 1 \<le> int j \<and> int j < limit) \<Longrightarrow> ds' ! j = ds[nat index := 0] ! j"
      "\<And>j. j < length ds \<Longrightarrow> index + 1 \<le> int j \<Longrightarrow> int j < limit \<Longrightarrow> ds' ! j = 0"
      using ih rng by auto
    have t: "take (nat index) ds' = take (nat index) ds"
    proof -
      have "take (nat index) ds' = take (nat index) (take (nat (index + 1)) ds')" using rng by (simp add: min_def)
      also have "\<dots> = take (nat index) (take (nat (index + 1)) (ds[nat index := 0]))" using ih'(2) by simp
      also have "\<dots> = take (nat index) ds" using rng by (simp add: min_def)
      finally show ?thesis .
    qed
    have a: "\<And>j. j < length ds \<Longrightarrow> \<not> (index \<le> int j \<and> int j < limit) \<Longrightarrow> ds' ! j = ds ! j"
    proof -
      fix j assume j: "j < length ds" "\<not> (index \<le> int j \<and> int j < limit)"
      then have u: "ds' ! j = ds[nat index := 0] ! j" using ih'(4)[of j] by auto
      have e: "int (nat index) = index" using rng(1) by simp
      have "j \<noteq> nat index"
      proof
        assume "j = nat index"
        then have "int j = index" using e by simp
        then show False using j(2) True by simp
      qed
      then show "ds' ! j = ds ! j" using u by simp
    qed
    have b: "\<And>j. j < length ds \<Longrightarrow> index \<le> int j \<Longrightarrow> int j < limit \<Longrightarrow> ds' ! j = 0"
    proof -
      fix j assume j: "j < length ds" "index \<le> int j" "int j < limit"
      show "ds' ! j = 0"
      proof (cases "int j = index")
        case True
        then have "ds' ! j = ds[nat index := 0] ! j" using ih'(4)[of j] j by auto
        then show ?thesis using True j by auto
      next
        case False
        then show ?thesis using ih'(5)[of j] j by auto
      qed
    qed
    show ?thesis using ih'(1,3) t a b True by auto
  qed
qed

lemma set_bit_loop_total:
  "0 \<le> lo \<Longrightarrow> nat hi \<le> length ds \<Longrightarrow> \<exists>ds'. set_bit_loop ds lo hi = Some (ds', max lo hi)"
proof (induction ds lo hi rule: set_bit_loop.induct)
  case (1 ds index limit)
  show ?case
  proof (cases "index < limit")
    case False
    then show ?thesis by (subst set_bit_loop.simps) simp
  next
    case True
    have rng: "0 \<le> index \<and> nat index < length ds" using "1.prems" True by auto
    have "\<exists>ds'. set_bit_loop (ds[nat index := 0]) (index + 1) limit = Some (ds', max (index + 1) limit)"
      using "1.IH"[OF True rng] "1.prems" by simp
    then show ?thesis using True rng by (subst set_bit_loop.simps) (auto simp: max_def)
  qed
qed

lemma normalise_loop_result:
  "normalise_loop ds tp cnt bound = Some (tp', cnt') \<Longrightarrow>
     tp' \<le> tp \<and> (0 \<le> tp \<longrightarrow> 0 \<le> tp') \<and> cnt' - cnt = tp - tp'
     \<and> (\<forall>j. tp' \<le> int j \<and> int j < tp \<longrightarrow> ds ! j = 0)
     \<and> (cnt' < bound \<and> 0 < tp' \<longrightarrow> ds ! nat (tp' - 1) \<noteq> 0)"
proof (induction ds tp cnt bound arbitrary: tp' cnt' rule: normalise_loop.induct)
  case (1 ds tp iterationCount iterationBound)
  show ?case
  proof (cases "tp > 0 \<and> iterationCount < iterationBound")
    case False
    with "1.prems" show ?thesis by (subst (asm) normalise_loop.simps) auto
  next
    case True
    with "1.prems" have rng: "nat (tp - 1) < length ds"
      by (subst (asm) normalise_loop.simps) (auto split: if_splits)
    show ?thesis
    proof (cases "ds ! nat (tp - 1) \<noteq> 0")
      case nz: True
      with "1.prems" True rng show ?thesis by (subst (asm) normalise_loop.simps) auto
    next
      case False
      with "1.prems" True rng
      have rec: "normalise_loop ds (tp - 1) (iterationCount + 1) iterationBound = Some (tp', cnt')"
        by (subst (asm) normalise_loop.simps) auto
      note ih = "1.IH"[OF True rng False rec]
      have z: "ds ! nat (tp - 1) = 0" using False by simp
      have "\<And>j. tp' \<le> int j \<Longrightarrow> int j < tp \<Longrightarrow> ds ! j = 0"
      proof -
        fix j assume j: "tp' \<le> int j" "int j < tp"
        show "ds ! j = 0"
        proof (cases "int j = tp - 1")
          case True then have "j = nat (tp - 1)" by auto
          then show ?thesis using z by simp
        next
          case False then show ?thesis using ih z j by auto
        qed
      qed
      then show ?thesis using ih True by auto
    qed
  qed
qed

lemma c_div_nonneg: "0 \<le> a \<Longrightarrow> 0 < b \<Longrightarrow> c_div a b = a div b"
  by (cases "a = 0") (simp_all add: c_div_def)

lemma c_mod_nonneg: "0 \<le> a \<Longrightarrow> 0 < b \<Longrightarrow> c_mod a b = a mod b"
  by (simp add: c_mod_def c_div_nonneg minus_mult_div_eq_mod)

lemma div_lt_cap:
  assumes "0 < (n::int)" and "a < m * n"
  shows "a div n < m"
proof (rule ccontr)
  assume "\<not> a div n < m"
  then have "m * n \<le> (a div n) * n" using assms(1) by (simp add: mult_right_mono)
  also have "(a div n) * n \<le> a"
    using assms(1) pos_mod_sign[of n a] by (simp add: minus_mod_eq_div_mult[symmetric])
  finally show False using assms(2) by simp
qed

lemma bit_mask_nz: "n < LENGTH('w) \<Longrightarrow> (push_bit n 1 :: 'w::len word) \<noteq> 0"
  by simp

lemma or_and_mask: "((x::'w::len word) OR m) AND m = m"
  by simp

lemma or_mask_nz: "(m::'w::len word) \<noteq> 0 \<Longrightarrow> x OR m \<noteq> 0"
  by (simp add: or_eq_0_iff)

text \<open>Word index and bit index of a bit inside the capacity.\<close>

lemma bit_position:
  assumes "sanityCheckBignum K (b::'w::len word BIGNUM)" and "0 \<le> bitNo" and "bitNo < bnWordsToBits b (dmax b)"
  shows "c_div bitNo (BN_BITS2 b) = bitNo div int LENGTH('w)"
    and "c_mod bitNo (BN_BITS2 b) = bitNo mod int LENGTH('w)"
    and "0 \<le> bitNo div int LENGTH('w)" and "bitNo div int LENGTH('w) < dmax b"
    and "nat (bitNo mod int LENGTH('w)) < LENGTH('w)"
proof -
  have p: "0 < int LENGTH('w)" by simp
  show "c_div bitNo (BN_BITS2 b) = bitNo div int LENGTH('w)"
    using assms(2) p by (simp add: c_div_nonneg BN_BITS2_def)
  show "c_mod bitNo (BN_BITS2 b) = bitNo mod int LENGTH('w)"
    using assms(2) p by (simp add: c_mod_nonneg BN_BITS2_def)
  show "0 \<le> bitNo div int LENGTH('w)" using assms(2) p by (simp add: pos_imp_zdiv_nonneg_iff)
  show "bitNo div int LENGTH('w) < dmax b"
    using assms(3) p by (intro div_lt_cap) (simp_all add: bnWordsToBits_def BN_BITS2_def)
  have "bitNo mod int LENGTH('w) < int LENGTH('w)" using p by (rule pos_mod_bound)
  moreover have "0 \<le> bitNo mod int LENGTH('w)" using p by (rule pos_mod_sign)
  ultimately show "nat (bitNo mod int LENGTH('w)) < LENGTH('w)" by linarith
qed


section \<open>Bit queries outside the used words\<close>

text \<open>
  Claim C7. \<^verbatim>\<open>BN_is_bit_set\<close> answers FALSE for a negative bit index, and for a bignum that
  passes the sanity check it does so on the ordinary path, through no error exit. It
  answers FALSE for every index whose word position \<open>bitNo / BN_BITS2\<close> is at or beyond
  \<open>top\<close>; inside the capacity of a sane bignum that too is the ordinary path.
\<close>

theorem BN_is_bit_set_outside:
  "(sanityCheckBignum K b \<and> bitNo < 0 \<longrightarrow> BN_is_bit_set K b bitNo = Normal False)
   \<and> (bitNo < 0 \<longrightarrow> retval_B (BN_is_bit_set K b bitNo) = Some False)
   \<and> (bn_top b \<le> c_div bitNo (BN_BITS2 b) \<longrightarrow> retval_B (BN_is_bit_set K b bitNo) = Some False)
   \<and> (sanityCheckBignum K b \<and> bitNo < bnWordsToBits b (dmax b) \<and> bn_top b \<le> c_div bitNo (BN_BITS2 b)
        \<longrightarrow> BN_is_bit_set K b bitNo = Normal False)"
proof -
  have pos: "sanityCheckBignum K b \<Longrightarrow> bitNo < 0 \<Longrightarrow> bitNo < bnWordsToBits b (dmax b)"
    using sane_bounds[of K b] BITS2_pos[of b]
    by (simp add: bnWordsToBits_def) (smt (verit) mult_pos_pos)
  show ?thesis
    using pos by (auto simp: BN_is_bit_set_def Let_def)
qed

theorem BN_is_bit_set_outside_witness:
  "sanityCheckBignum example_consts (bn32 1 0 0 [5, 0, 0, 0]) \<and> (- 1 :: int) < 0
   \<and> BN_is_bit_set example_consts (bn32 1 0 0 [5, 0, 0, 0]) (- 1) = Normal False
   \<and> retval_B (BN_is_bit_set example_consts (bn32 1 0 0 [5, 0, 0, 0]) (- 1)) = Some False
   \<and> bn_top (bn32 1 0 0 [5, 0, 0, 0]) \<le> c_div 40 (BN_BITS2 (bn32 1 0 0 [5, 0, 0, 0]))
   \<and> 40 < bnWordsToBits (bn32 1 0 0 [5, 0, 0, 0]) (dmax (bn32 1 0 0 [5, 0, 0, 0]))
   \<and> retval_B (BN_is_bit_set example_consts (bn32 1 0 0 [5, 0, 0, 0]) 40) = Some False
   \<and> BN_is_bit_set example_consts (bn32 1 0 0 [5, 0, 0, 0]) 40 = Normal False"
  using BN_is_bit_set_outside[of example_consts "bn32 1 0 0 [5, 0, 0, 0]" "- 1"]
    BN_is_bit_set_outside[of example_consts "bn32 1 0 0 [5, 0, 0, 0]" 40]
  by (simp add: eval_bn)

section \<open>Copying\<close>

lemma BN_copy_Normal:
  assumes "sanityCheckBignum K dest" and "sanityCheckBignum K src"
    and "dmax dest \<ge> bn_top src" and "bn_storage dest" and "bn_storage src"
  shows "BN_copy K dest src =
           Normal (dest\<lparr>bn_d := take (nat (bn_top src)) (bn_d src) @ drop (nat (bn_top src)) (bn_d dest),
                        bn_top := bn_top src, neg := neg src\<rparr>)"
proof -
  have l1: "nat (bn_top src) \<le> length (bn_d src)"
    using assms sane_bounds[of K src] unfolding bn_storage_def by linarith
  have l2: "nat (bn_top src) \<le> length (bn_d dest)"
    using assms sane_bounds[of K dest] unfolding bn_storage_def by linarith
  show ?thesis
    using assms l1 l2 by (simp add: BN_copy_def)
qed

lemma BN_copy_result:
  assumes "sanityCheckBignum K dest" and "sanityCheckBignum K src"
    and "dmax dest \<ge> bn_top src" and "bn_storage dest" and "bn_storage src"
  shows "\<exists>dest'. BN_copy K dest src = Normal dest'
           \<and> bn_top dest' = bn_top src \<and> neg dest' = neg src \<and> bn_value dest' = bn_value src
           \<and> dmax dest' = dmax dest \<and> flags dest' = flags dest
           \<and> length (bn_d dest') = length (bn_d dest)
           \<and> sanityCheckBignum K dest' \<and> bn_storage dest'"
proof -
  have l1: "nat (bn_top src) \<le> length (bn_d src)"
    using assms sane_bounds[of K src] unfolding bn_storage_def by linarith
  have l2: "nat (bn_top src) \<le> length (bn_d dest)"
    using assms sane_bounds[of K dest] unfolding bn_storage_def by linarith
  let ?d = "dest\<lparr>bn_d := take (nat (bn_top src)) (bn_d src) @ drop (nat (bn_top src)) (bn_d dest),
                        bn_top := bn_top src, neg := neg src\<rparr>"
  have "getBNMaxSize K ?d = getBNMaxSize K dest" by (simp add: getBNMaxSize_def)
  then have s: "sanityCheckBignum K ?d"
    using assms(1,2,3) by (simp add: sanity_iff)
  have "bn_storage ?d" using assms(4) l1 l2 by (simp add: bn_storage_def)
  then show ?thesis
    using BN_copy_Normal[OF assms] s l1 l2 by (simp add: bn_value_def)
qed


text \<open>
  Claim C4. For bignums \<open>dest\<close> and \<open>src\<close> that pass the sanity check and have their
  storage, with \<open>dmax dest \<ge> top src\<close>, \<^verbatim>\<open>BN_copy\<close> succeeds; the first \<open>top src\<close> words
  of the destination are those of the source and the words after them are untouched; the
  destination has the \<open>top\<close>, the sign and the value of the source; its \<open>dmax\<close> and its
  \<open>flags\<close> are what they were.
\<close>

theorem BN_copy_fidelity:
  assumes "sanityCheckBignum K dest" and "sanityCheckBignum K src"
    and "dmax dest \<ge> bn_top src" and "bn_storage dest" and "bn_storage src"
  shows "\<exists>dest'. BN_copy K dest src = Normal dest'
           \<and> take (nat (bn_top src)) (bn_d dest') = take (nat (bn_top src)) (bn_d src)
           \<and> drop (nat (bn_top src)) (bn_d dest') = drop (nat (bn_top src)) (bn_d dest)
           \<and> bn_top dest' = bn_top src \<and> neg dest' = neg src
           \<and> bn_value dest' = bn_value src
           \<and> dmax dest' = dmax dest \<and> flags dest' = flags dest"
proof -
  have l1: "nat (bn_top src) \<le> length (bn_d src)"
    using assms sane_bounds[of K src] unfolding bn_storage_def by linarith
  have l2: "nat (bn_top src) \<le> length (bn_d dest)"
    using assms sane_bounds[of K dest] unfolding bn_storage_def by linarith
  show ?thesis
    using BN_copy_Normal[OF assms] l1 l2 by (simp add: bn_value_def)
qed


theorem BN_copy_fidelity_witness:
  "sanityCheckBignum example_consts (bn32 0 0 0 [9, 9, 9, 9])
   \<and> sanityCheckBignum example_consts (bn32 2 1 0 [5, 7, 0, 0])
   \<and> dmax (bn32 0 0 0 [9, 9, 9, 9]) \<ge> bn_top (bn32 2 1 0 [5, 7, 0, 0])
   \<and> bn_storage (bn32 0 0 0 [9, 9, 9, 9]) \<and> bn_storage (bn32 2 1 0 [5, 7, 0, 0])
   \<and> BN_copy example_consts (bn32 0 0 0 [9, 9, 9, 9]) (bn32 2 1 0 [5, 7, 0, 0])
       = Normal (bn32 2 1 0 [5, 7, 9, 9])
   \<and> bn_value (bn32 2 1 0 [5, 7, 9, 9]) = bn_value (bn32 2 1 0 [5, 7, 0, 0])"
  using BN_copy_fidelity[of example_consts "bn32 0 0 0 [9, 9, 9, 9]" "bn32 2 1 0 [5, 7, 0, 0]"]
  by (simp add: eval_bn BN_copy_def)

section \<open>Swapping with a static operand\<close>

text \<open>
  Claim C8 asks that \<^verbatim>\<open>BN_swap\<close> reject a call in which either operand is static data.
  The code tests \<^verbatim>\<open>bignum1\<close> twice and \<^verbatim>\<open>bignum2\<close> never. With a writable first operand
  and a static second one whose sizes fit, the swap goes through: the static bignum comes
  back with the value, \<open>top\<close> and sign of the first operand, its static flag still set.
\<close>

theorem BN_swap_static_second_operand:
  assumes "sanityCheckBignum K (BN_init K :: 'w::len word BIGNUM)"
    and "sanityCheckBignum K (b1 :: 'w word BIGNUM)" and "bn_storage b1"
    and "\<not> flag_set (flags b1) (BN_FLG_STATIC_DATA K)"
    and "sanityCheckBignum K b2" and "bn_storage b2"
    and "flag_set (flags b2) (BN_FLG_STATIC_DATA K)"
    and "bn_top b1 \<le> BIGNUM_ALLOC_WORDS K" and "bn_top b2 \<le> dmax b1" and "bn_top b1 \<le> dmax b2"
  shows "\<exists>b1' b2'. BN_swap K b1 b2 = Normal (b1', b2')
           \<and> bn_value b2' = bn_value b1 \<and> bn_top b2' = bn_top b1 \<and> neg b2' = neg b1
           \<and> bn_value b1' = bn_value b2 \<and> bn_top b1' = bn_top b2 \<and> neg b1' = neg b2
           \<and> flags b2' = flags b2"
proof -
  have si: "bn_storage (BN_init K :: 'w word BIGNUM)" by (simp add: bn_storage_def BN_init_def)
  have di: "bn_top b1 \<le> dmax (BN_init K :: 'w word BIGNUM)" using assms(8) by (simp add: BN_init_def)
  obtain tmp where tmp: "BN_copy K (BN_init K) b1 = Normal tmp"
    "bn_top tmp = bn_top b1" "neg tmp = neg b1" "bn_value tmp = bn_value b1"
    "sanityCheckBignum K tmp" "bn_storage tmp"
    using BN_copy_result[OF assms(1,2) di si assms(3)] by blast
  obtain c1 where c1: "BN_copy K b1 b2 = Normal c1"
    "bn_top c1 = bn_top b2" "neg c1 = neg b2" "bn_value c1 = bn_value b2"
    using BN_copy_result[OF assms(2,5) _ assms(3,6)] assms(9) by auto
  have "bn_top tmp \<le> dmax b2" using tmp(2) assms(10) by simp
  then obtain c2 where c2: "BN_copy K b2 tmp = Normal c2"
    "bn_top c2 = bn_top tmp" "neg c2 = neg tmp" "bn_value c2 = bn_value tmp" "flags c2 = flags b2"
    using BN_copy_result[OF assms(5) tmp(5) _ assms(6) tmp(6)] by auto
  have "BN_swap K b1 b2 = Normal (c1, c2)"
    using assms(4) tmp(1) c1(1) c2(1) by (simp add: BN_swap_def)
  then show ?thesis using tmp c1 c2 by simp
qed


theorem BN_swap_static_second_operand_witness:
  "sanityCheckBignum example_consts (BN_init example_consts :: 32 word BIGNUM)
   \<and> sanityCheckBignum example_consts (bn32 1 0 0 [5, 0, 0, 0])
   \<and> bn_storage (bn32 1 0 0 [5, 0, 0, 0])
   \<and> \<not> flag_set (flags (bn32 1 0 0 [5, 0, 0, 0])) (BN_FLG_STATIC_DATA example_consts)
   \<and> sanityCheckBignum example_consts (BN_value_one example_consts :: 32 word BIGNUM)
   \<and> bn_storage (BN_value_one example_consts :: 32 word BIGNUM)
   \<and> flag_set (flags (BN_value_one example_consts :: 32 word BIGNUM)) (BN_FLG_STATIC_DATA example_consts)
   \<and> bn_top (bn32 1 0 0 [5, 0, 0, 0]) \<le> BIGNUM_ALLOC_WORDS example_consts
   \<and> bn_top (BN_value_one example_consts :: 32 word BIGNUM) \<le> dmax (bn32 1 0 0 [5, 0, 0, 0])
   \<and> bn_top (bn32 1 0 0 [5, 0, 0, 0]) \<le> dmax (BN_value_one example_consts :: 32 word BIGNUM)
   \<and> BN_swap example_consts (bn32 1 0 0 [5, 0, 0, 0]) (BN_value_one example_consts)
       = Normal (bn32 1 0 0 [1, 0, 0, 0], bn32 1 0 2 [5, 0, 0, 0])
   \<and> bn_value (bn32 1 0 2 [5, 0, 0, 0]) = 5
   \<and> bn_value (BN_value_one example_consts :: 32 word BIGNUM) = 1"
  using BN_swap_static_second_operand[of example_consts "bn32 1 0 0 [5, 0, 0, 0]"
      "BN_value_one example_consts"]
  by (simp add: eval_bn BN_swap_def BN_copy_def)

section \<open>Setting bits\<close>

lemma BN_set_bit_paths:
  assumes "payload (BN_set_bit K (b::'w::len word BIGNUM) bitNo) = Some b'"
  shows "b' = b
     \<or> (\<exists>ds'. b' = b\<lparr>bn_d := ds'\<rparr> \<and> take (nat (bn_top b)) ds' = take (nat (bn_top b)) (bn_d b))
     \<or> (\<exists>j x. j < nat (bn_top b') \<and> j < length (bn_d b') \<and> bn_d b' ! j = x OR push_bit (nat (bitNo mod int LENGTH('w))) 1
           \<and> nat (bitNo mod int LENGTH('w)) < LENGTH('w))"
proof (cases "sanityCheckBignum K b \<and> \<not> flag_set (flags b) (BN_FLG_STATIC_DATA K)
               \<and> 0 \<le> bitNo \<and> bitNo < bnWordsToBits b (dmax b)")
  case False
  with assms show ?thesis by (auto simp: BN_set_bit_def Let_def split: if_splits)
next
  case True
  note pos = bit_position[of K b bitNo]
  define wi where "wi = bitNo div int LENGTH('w)"
  define m :: "'w word" where "m = push_bit (nat (bitNo mod int LENGTH('w))) 1"
  have wi: "c_div bitNo (BN_BITS2 b) = wi"
    and bi: "c_mod bitNo (BN_BITS2 b) = bitNo mod int LENGTH('w)"
    and wi0: "0 \<le> wi" and wid: "wi < dmax b" and bl: "nat (bitNo mod int LENGTH('w)) < LENGTH('w)"
    using True pos by (auto simp: wi_def)
  show ?thesis
  proof (cases "bn_top b < wi + 1")
    case False
    then have "BN_set_bit K b bitNo =
       (if nat wi < length (bn_d b) then
          (let b2 = b\<lparr>bn_d := (bn_d b)[nat wi := (bn_d b ! nat wi) OR m]\<rparr>
           in if \<not> sanityCheckBignum K b2 then IntError b2 else Normal b2)
        else Undefined)"
      using True wi0 by (simp add: BN_set_bit_def Let_def wi bi m_def)
    with assms have l: "nat wi < length (bn_d b)"
      and b': "b' = b\<lparr>bn_d := (bn_d b)[nat wi := (bn_d b ! nat wi) OR m]\<rparr>"
      by (auto simp: Let_def split: if_splits)
    have "nat wi < nat (bn_top b')" using False wi0 b' by simp
    moreover have "nat wi < length (bn_d b')" using l b' by simp
    moreover have "bn_d b' ! nat wi = (bn_d b ! nat wi) OR m" using l b' by simp
    ultimately show ?thesis using bl unfolding m_def by blast
  next
    case ext: True
    show ?thesis
    proof (cases "set_bit_loop (bn_d b) (bn_top b) (wi + 1)")
      case None
      then have "BN_set_bit K b bitNo = Undefined"
        using True ext wid by (simp add: BN_set_bit_def Let_def wi bi)
      with assms show ?thesis by simp
    next
      case (Some r)
      obtain ds idx where r: "r = (ds, idx)" by (cases r)
      note lp = set_bit_loop_result[OF Some[unfolded r]]
      have idx: "idx = wi + 1" using lp ext by simp
      show ?thesis
      proof (cases "idx < getBNMaxSize K b")
        case False
        then have "BN_set_bit K b bitNo = IntError (b\<lparr>bn_d := ds\<rparr>)"
          using True ext wid Some r by (simp add: BN_set_bit_def Let_def wi bi)
        with assms have "b' = b\<lparr>bn_d := ds\<rparr>" by simp
        then show ?thesis using lp by blast
      next
        case inb: True
        define b1 where "b1 = b\<lparr>bn_d := ds, bn_top := wi + 1\<rparr>"
        have "BN_set_bit K b bitNo =
          (if nat wi < length (bn_d b1) then
             (let b2 = b1\<lparr>bn_d := (bn_d b1)[nat wi := (bn_d b1 ! nat wi) OR m]\<rparr>
              in if \<not> sanityCheckBignum K b2 then IntError b2 else Normal b2)
           else Undefined)"
          using True ext wid Some r inb wi0 by (simp add: BN_set_bit_def Let_def wi bi m_def b1_def)
        with assms have l: "nat wi < length (bn_d b1)"
          and b': "b' = b1\<lparr>bn_d := (bn_d b1)[nat wi := (bn_d b1 ! nat wi) OR m]\<rparr>"
          by (auto simp: Let_def split: if_splits)
        have "nat wi < nat (bn_top b')" using wi0 b' by (simp add: b1_def)
        moreover have "nat wi < length (bn_d b')" using l b' by simp
        moreover have "bn_d b' ! nat wi = (bn_d b1 ! nat wi) OR m" using l b' by simp
        ultimately show ?thesis using bl unfolding m_def by blast
      qed
    qed
  qed
qed

lemma canonical_zero_set_bit:
  assumes "canonical_zero b" and "payload (BN_set_bit K (b::'w::len word BIGNUM) bitNo) = Some b'"
  shows "canonical_zero b'"
proof -
  from BN_set_bit_paths[OF assms(2)]
  consider "b' = b"
    | ds' where "b' = b\<lparr>bn_d := ds'\<rparr>" "take (nat (bn_top b)) ds' = take (nat (bn_top b)) (bn_d b)"
    | j x where "j < nat (bn_top b')" "j < length (bn_d b')"
        "bn_d b' ! j = x OR push_bit (nat (bitNo mod int LENGTH('w))) 1"
        "nat (bitNo mod int LENGTH('w)) < LENGTH('w)"
    by blast
  then show ?thesis
  proof cases
    case 1 then show ?thesis using assms(1) by simp
  next
    case 2
    then have "bn_value b' = bn_value b" "bn_top b' = bn_top b" "neg b' = neg b"
      by (simp_all add: bn_value_def)
    then show ?thesis using assms(1) by (simp add: canonical_zero_def)
  next
    case 3
    have "bn_d b' ! j \<noteq> 0" using 3(3,4) by (simp add: or_eq_0_iff)
    then have "bn_value b' \<noteq> 0" using 3(1,2) bn_value_zero_iff[of b'] by blast
    then show ?thesis by (simp add: canonical_zero_def)
  qed
qed

lemma canonical_zero_normalise:
  assumes "canonical_zero b" and "payload (BN_normalise K (b::'w::len word BIGNUM)) = Some b'"
  shows "canonical_zero b'"
proof (cases "sanityCheckBignum K b \<and> \<not> BN_is_zero b")
  case False
  with assms have "b' = b" by (auto simp: BN_normalise_def Let_def split: if_splits)
  then show ?thesis using assms(1) by simp
next
  case True
  then have nz: "bn_value b \<noteq> 0" using assms(1) by (auto simp: canonical_zero_def BN_is_zero_def)
  then obtain j where j: "j < nat (bn_top b)" "j < length (bn_d b)" "bn_d b ! j \<noteq> 0"
    by (auto simp: bn_value_zero_iff)
  from assms(2) True obtain tp cnt where
    lp: "normalise_loop (bn_d b) (bn_top b) 0 (getBNMaxSize K b) = Some (tp, cnt)"
    and b': "b' = b\<lparr>bn_top := tp\<rparr>"
    by (auto simp: BN_normalise_def Let_def split: if_splits option.splits prod.splits)
  note r = normalise_loop_result[OF lp]
  have "int j < tp"
  proof (rule ccontr)
    assume "\<not> int j < tp"
    then have "tp \<le> int j \<and> int j < bn_top b" using j(1) by linarith
    then have "bn_d b ! j = 0" using r by blast
    then show False using j(3) by simp
  qed
  then have "j < nat (bn_top b')" "j < length (bn_d b')" "bn_d b' ! j \<noteq> 0"
    using j b' by auto
  then have "bn_value b' \<noteq> 0" using bn_value_zero_iff[of b'] by blast
  then show ?thesis by (simp add: canonical_zero_def)
qed


text \<open>
  Inside the array the round trip holds: when the word of the bit is already in use, or
  when extending \<open>top\<close> to it stays below the size of the array, \<^verbatim>\<open>BN_set_bit\<close> succeeds
  and \<^verbatim>\<open>BN_is_bit_set\<close> then answers TRUE.
\<close>

lemma BN_set_bit_round_trip:
  assumes "pool_bn K (b::'w::len word BIGNUM)" and "0 \<le> bitNo"
    and "bitNo < bnWordsToBits b (dmax b)"
    and "bitNo div int LENGTH('w) < bn_top b \<or> bitNo div int LENGTH('w) + 1 < getBNMaxSize K b"
  shows "\<exists>b'. BN_set_bit K b bitNo = Normal b' \<and> BN_is_bit_set K b' bitNo = Normal True
           \<and> pool_bn K b' \<and> bn_top b' = max (bn_top b) (bitNo div int LENGTH('w) + 1)"
proof -
  have sane: "sanityCheckBignum K b" and ns: "\<not> flag_set (flags b) (BN_FLG_STATIC_DATA K)"
    and st: "nat (dmax b) \<le> length (bn_d b)"
    using assms(1) by (auto simp: pool_bn_def bn_storage_def)
  define wi where "wi = bitNo div int LENGTH('w)"
  define m :: "'w word" where "m = push_bit (nat (bitNo mod int LENGTH('w))) 1"
  note pos = bit_position[OF sane assms(2,3)]
  have wi: "c_div bitNo (BN_BITS2 b) = wi" and bi: "c_mod bitNo (BN_BITS2 b) = bitNo mod int LENGTH('w)"
    and wi0: "0 \<le> wi" and wid: "wi < dmax b" and bl: "nat (bitNo mod int LENGTH('w)) < LENGTH('w)"
    using pos by (auto simp: wi_def)
  have mnz: "m \<noteq> 0" using bl by (simp add: m_def)
  have top0: "0 \<le> bn_top b" and topd: "bn_top b \<le> dmax b" using sane_bounds[OF sane] by simp_all
  have wl: "nat wi < length (bn_d b)" using wid st wi0 by linarith
  \<comment> \<open>the bignum after the extension phase\<close>
  obtain b1 where b1: "bn_top b1 = max (bn_top b) (wi + 1)" "dmax b1 = dmax b" "flags b1 = flags b"
    "neg b1 = neg b" "length (bn_d b1) = length (bn_d b)"
    and run: "BN_set_bit K b bitNo =
       (let b2 = b1\<lparr>bn_d := (bn_d b1)[nat wi := (bn_d b1 ! nat wi) OR m]\<rparr>
        in if \<not> sanityCheckBignum K b2 then IntError b2 else Normal b2)"
  proof (cases "bn_top b < wi + 1")
    case False
    have "BN_set_bit K b bitNo =
       (let b2 = b\<lparr>bn_d := (bn_d b)[nat wi := (bn_d b ! nat wi) OR m]\<rparr>
        in if \<not> sanityCheckBignum K b2 then IntError b2 else Normal b2)"
      using sane ns assms(2,3) False wi0 wl by (simp add: BN_set_bit_def Let_def wi bi m_def)
    moreover have "bn_top b = max (bn_top b) (wi + 1)" using False by simp
    ultimately show ?thesis using that[of b] by simp
  next
    case True
    then have inb: "wi + 1 < getBNMaxSize K b" using assms(4) by (simp add: wi_def)
    have "nat (wi + 1) \<le> length (bn_d b)" using wid st by linarith
    then obtain ds where lp: "set_bit_loop (bn_d b) (bn_top b) (wi + 1) = Some (ds, max (bn_top b) (wi + 1))"
      using set_bit_loop_total[OF top0, of "wi + 1" "bn_d b"] by blast
    have mx: "max (bn_top b) (wi + 1) = wi + 1" using True by simp
    have len: "length ds = length (bn_d b)" using set_bit_loop_result[OF lp] by simp
    have "BN_set_bit K b bitNo =
       (let b1 = b\<lparr>bn_d := ds, bn_top := wi + 1\<rparr>;
            b2 = b1\<lparr>bn_d := (bn_d b1)[nat wi := (bn_d b1 ! nat wi) OR m]\<rparr>
        in if \<not> sanityCheckBignum K b2 then IntError b2 else Normal b2)"
      using sane ns assms(2,3) True wi0 wl wid lp mx inb len
      by (simp add: BN_set_bit_def Let_def wi bi m_def)
    then show ?thesis using that[of "b\<lparr>bn_d := ds, bn_top := wi + 1\<rparr>"] mx len by (simp add: Let_def)
  qed
  define b2 where "b2 = b1\<lparr>bn_d := (bn_d b1)[nat wi := (bn_d b1 ! nat wi) OR m]\<rparr>"
  have t2: "bn_top b2 = max (bn_top b) (wi + 1)" "dmax b2 = dmax b" "flags b2 = flags b" "neg b2 = neg b"
    "length (bn_d b2) = length (bn_d b)"
    using b1 by (simp_all add: b2_def)
  have s2: "sanityCheckBignum K b2"
    using sane t2 wid topd top0 wi0 by (simp add: sanity_iff getBNMaxSize_flags[of b2 b])
  have r2: "BN_set_bit K b bitNo = Normal b2" using run s2 by (simp add: Let_def b2_def)
  have p2: "pool_bn K b2" using s2 t2 ns st by (simp add: pool_bn_def bn_storage_def)
  have w2: "bn_d b2 ! nat wi = (bn_d b1 ! nat wi) OR m" using wl b1(5) by (simp add: b2_def)
  have "bn_d b2 ! nat wi AND m = m" by (simp add: w2)
  then have "bn_d b2 ! nat wi AND m \<noteq> 0" using mnz by simp
  then have bitset: "bn_d b2 ! nat wi AND push_bit (nat (bitNo mod int LENGTH('w))) 1 \<noteq> 0"
    by (simp add: m_def)
  have "BN_is_bit_set K b2 bitNo = Normal True"
    using s2 assms(2,3) t2 wi0 wl bitset
    by (simp add: BN_is_bit_set_def Let_def BN_BITS2_def bnWordsToBits_def c_div_nonneg c_mod_nonneg
        wi_def[symmetric])
  then show ?thesis using r2 p2 t2 by (auto simp: wi_def)
qed


text \<open>
  Claim C6 asks the round trip for every bit index within the capacity. For a bit in the
  last word of the array, beyond the used words, the code does otherwise: the range
  checks accept the index, the loop clears the words up to it and ends with
  \<open>index = wordIndex + 1\<close>, which is the array size, and
  \<^verbatim>\<open>ENSURES_B( index < iterationBound )\<close> then leaves with FALSE before \<open>top\<close> and the bit
  are written. \<^verbatim>\<open>BN_is_bit_set\<close> on the result answers FALSE.
\<close>

theorem BN_set_bit_last_word_rejected:
  assumes "pool_bn K (b::'w::len word BIGNUM)" and "0 \<le> bitNo"
    and "bitNo < bnWordsToBits b (dmax b)"
    and "bn_top b \<le> bitNo div int LENGTH('w)"
    and "getBNMaxSize K b \<le> bitNo div int LENGTH('w) + 1"
  shows "\<exists>b'. BN_set_bit K b bitNo = IntError b' \<and> bn_top b' = bn_top b
           \<and> BN_is_bit_set K b' bitNo = Normal False"
proof -
  have sane: "sanityCheckBignum K b" and ns: "\<not> flag_set (flags b) (BN_FLG_STATIC_DATA K)"
    and st: "nat (dmax b) \<le> length (bn_d b)"
    using assms(1) by (auto simp: pool_bn_def bn_storage_def)
  define wi where "wi = bitNo div int LENGTH('w)"
  note pos = bit_position[OF sane assms(2,3)]
  have wi: "c_div bitNo (BN_BITS2 b) = wi" and bi: "c_mod bitNo (BN_BITS2 b) = bitNo mod int LENGTH('w)"
    and wi0: "0 \<le> wi" and wid: "wi < dmax b"
    using pos by (auto simp: wi_def)
  have top0: "0 \<le> bn_top b" using sane_bounds[OF sane] by simp
  have "nat (wi + 1) \<le> length (bn_d b)" using wid st by linarith
  then obtain ds where lp: "set_bit_loop (bn_d b) (bn_top b) (wi + 1) = Some (ds, max (bn_top b) (wi + 1))"
    using set_bit_loop_total[OF top0, of "wi + 1" "bn_d b"] by blast
  have mx: "max (bn_top b) (wi + 1) = wi + 1" using assms(4) by (simp add: wi_def)
  have e: "BN_set_bit K b bitNo = IntError (b\<lparr>bn_d := ds\<rparr>)"
    using sane ns assms(2,3,4,5) wid lp mx
    by (simp add: BN_set_bit_def Let_def wi bi wi_def[symmetric])
  have s': "sanityCheckBignum K (b\<lparr>bn_d := ds\<rparr>)"
    using sane sanity_fields[of "b\<lparr>bn_d := ds\<rparr>" b K] by simp
  have "BN_is_bit_set K (b\<lparr>bn_d := ds\<rparr>) bitNo = Normal False"
    using s' assms(2,3,4) wi by (simp add: BN_is_bit_set_def Let_def BN_BITS2_def bnWordsToBits_def wi_def)
  then show ?thesis using e by simp
qed


theorem BN_set_bit_last_word_rejected_witness:
  "pool_bn example_consts (BN_init example_consts :: 32 word BIGNUM) \<and> (0 :: int) \<le> 127
   \<and> 127 < bnWordsToBits (BN_init example_consts :: 32 word BIGNUM)
             (dmax (BN_init example_consts :: 32 word BIGNUM))
   \<and> bn_top (BN_init example_consts :: 32 word BIGNUM) \<le> 127 div int LENGTH(32)
   \<and> getBNMaxSize example_consts (BN_init example_consts :: 32 word BIGNUM) \<le> 127 div int LENGTH(32) + 1
   \<and> BN_set_bit example_consts (BN_init example_consts :: 32 word BIGNUM) 127
       = IntError (BN_init example_consts)
   \<and> BN_is_bit_set example_consts (BN_init example_consts :: 32 word BIGNUM) 127 = Normal False"
  using BN_set_bit_last_word_rejected[of example_consts "BN_init example_consts :: 32 word BIGNUM" 127]
  by (simp add: eval_bn BN_set_bit_def BN_is_bit_set_def Let_def set_bit_loop.simps)

section \<open>Canonical zero\<close>

text \<open>
  Claim C5. A bignum is in canonical form when value zero implies \<open>top = 0\<close> and no
  sign. Every routine of the file that writes a bignum keeps operands in that form,
  whichever way the call ends: \<^verbatim>\<open>BN_init\<close>, \<^verbatim>\<open>BN_clear\<close>, \<^verbatim>\<open>BN_copy\<close> (from a canonical
  source), \<^verbatim>\<open>BN_swap\<close>, \<^verbatim>\<open>BN_set_word\<close>, \<^verbatim>\<open>BN_set_bit\<close>, \<^verbatim>\<open>BN_set_negative\<close> and
  \<^verbatim>\<open>BN_normalise\<close>. In particular \<^verbatim>\<open>BN_set_word\<close> with the word 0 on a pool bignum
  succeeds and leaves \<open>top = 0\<close> and no sign, and \<^verbatim>\<open>BN_set_negative\<close> on a canonical
  bignum of value zero leaves it not negative, whatever flag is passed.
\<close>

theorem canonical_zero_preserved:
  "canonical_zero (BN_init K :: 'w::len word BIGNUM)
   \<and> (canonical_zero b \<and> payload (BN_clear K b) = Some b' \<longrightarrow> canonical_zero b')
   \<and> (canonical_zero dest \<and> canonical_zero src \<and> payload (BN_copy K dest src) = Some dest'
        \<longrightarrow> canonical_zero dest')
   \<and> (canonical_zero b1 \<and> canonical_zero b2 \<and> payload (BN_swap K b1 b2) = Some (b1', b2')
        \<longrightarrow> canonical_zero b1' \<and> canonical_zero b2')
   \<and> (canonical_zero bw \<and> payload (BN_set_word K bw w) = Some bw' \<longrightarrow> canonical_zero bw')
   \<and> (canonical_zero bs \<and> payload (BN_set_bit K bs bitNo) = Some bs' \<longrightarrow> canonical_zero bs')
   \<and> (canonical_zero bn \<longrightarrow> canonical_zero (BN_set_negative bn v))
   \<and> (canonical_zero bm \<and> payload (BN_normalise K bm) = Some bm' \<longrightarrow> canonical_zero bm')
   \<and> (pool_bn K x \<longrightarrow> (\<exists>x'. BN_set_word K x 0 = Normal x' \<and> bn_top x' = 0 \<and> neg x' = FALSE))
   \<and> (canonical_zero z \<and> bn_value z = 0 \<longrightarrow> neg (BN_set_negative z v) = FALSE)"
proof -
  have "canonical_zero z \<and> bn_value z = 0 \<longrightarrow> neg (BN_set_negative z v) = FALSE"
    by (auto simp: canonical_zero_def BN_set_negative_def BN_is_zero_def)
  moreover have "pool_bn K x \<longrightarrow> (\<exists>x'. BN_set_word K x 0 = Normal x' \<and> bn_top x' = 0 \<and> neg x' = FALSE)"
    using BN_set_word_zero[of K x] by blast
  ultimately show ?thesis
    using canonical_zero_init[of K] canonical_zero_clear[of b K b']
      canonical_zero_copy[of dest src K dest'] canonical_zero_swap[of b1 b2 K b1' b2']
      canonical_zero_set_word[of bw K w bw'] canonical_zero_set_bit[of bs K bitNo bs']
      canonical_zero_set_negative[of bn v] canonical_zero_normalise[of bm K bm']
    by blast
qed


theorem canonical_zero_preserved_witness:
  "canonical_zero (BN_init example_consts :: 32 word BIGNUM)
   \<and> canonical_zero (bn32 1 1 0 [5, 0, 0, 0])
   \<and> payload (BN_clear example_consts (bn32 1 1 0 [5, 0, 0, 0])) = Some (bn32 0 0 0 [0, 0, 0, 0])
   \<and> canonical_zero (bn32 0 0 0 [0, 0, 0, 0])
   \<and> payload (BN_copy example_consts (bn32 1 1 0 [5, 0, 0, 0]) (bn32 0 0 0 [0, 0, 0, 0]))
       = Some (bn32 0 0 0 [5, 0, 0, 0])
   \<and> canonical_zero (bn32 0 0 0 [5, 0, 0, 0])
   \<and> payload (BN_swap example_consts (bn32 1 1 0 [5, 0, 0, 0]) (bn32 0 0 0 [0, 0, 0, 0]))
       = Some (bn32 0 0 0 [5, 0, 0, 0], bn32 1 1 0 [5, 0, 0, 0])
   \<and> payload (BN_set_word example_consts (bn32 1 1 0 [5, 0, 0, 0]) 0) = Some (bn32 0 0 0 [0, 0, 0, 0])
   \<and> payload (BN_set_bit example_consts (bn32 0 0 0 [0, 0, 0, 0]) 3) = Some (bn32 1 0 0 [8, 0, 0, 0])
   \<and> canonical_zero (bn32 1 0 0 [8, 0, 0, 0])
   \<and> canonical_zero (BN_set_negative (bn32 0 0 0 [0, 0, 0, 0] :: 32 word BIGNUM) 1)
   \<and> canonical_zero (bn32 2 0 0 [5, 0, 0, 0])
   \<and> payload (BN_normalise example_consts (bn32 2 0 0 [5, 0, 0, 0])) = Some (bn32 1 0 0 [5, 0, 0, 0])
   \<and> canonical_zero (bn32 1 0 0 [5, 0, 0, 0])
   \<and> pool_bn example_consts (bn32 1 1 0 [5, 0, 0, 0])
   \<and> BN_set_word example_consts (bn32 1 1 0 [5, 0, 0, 0]) 0 = Normal (bn32 0 0 0 [0, 0, 0, 0])
   \<and> bn_value (bn32 0 0 0 [0, 0, 0, 0]) = 0
   \<and> neg (BN_set_negative (bn32 0 0 0 [0, 0, 0, 0] :: 32 word BIGNUM) 1) = FALSE"
  using canonical_zero_preserved[of example_consts
      "bn32 1 1 0 [5, 0, 0, 0]" "bn32 0 0 0 [0, 0, 0, 0]"
      "bn32 1 1 0 [5, 0, 0, 0]" "bn32 0 0 0 [0, 0, 0, 0]" "bn32 0 0 0 [5, 0, 0, 0]"
      "bn32 1 1 0 [5, 0, 0, 0]" "bn32 0 0 0 [0, 0, 0, 0]" "bn32 0 0 0 [5, 0, 0, 0]" "bn32 1 1 0 [5, 0, 0, 0]"
      "bn32 1 1 0 [5, 0, 0, 0]" 0 "bn32 0 0 0 [0, 0, 0, 0]"
      "bn32 0 0 0 [0, 0, 0, 0]" 3 "bn32 1 0 0 [8, 0, 0, 0]"
      "bn32 0 0 0 [0, 0, 0, 0]" 1
      "bn32 2 0 0 [5, 0, 0, 0]" "bn32 1 0 0 [5, 0, 0, 0]"
      "bn32 1 1 0 [5, 0, 0, 0]" "bn32 0 0 0 [0, 0, 0, 0]"]
  by (simp add: eval_bn BN_clear_def BN_copy_def BN_swap_def BN_set_word_def BN_set_bit_def
      BN_set_negative_def BN_is_zero_def BN_normalise_def Let_def set_bit_loop.simps
      normalise_loop.simps)

section \<open>Context facts\<close>

text \<open>The invariant with the lists read by index.\<close>

lemma sorted_take_conv:
  "sorted (take n xs) \<longleftrightarrow> (\<forall>i j. i \<le> j \<and> j < n \<and> j < length xs \<longrightarrow> xs ! i \<le> xs ! j)"
  by (auto simp: sorted_iff_nth_mono)

lemma list_all_take_conv:
  "list_all P (take n xs) \<longleftrightarrow> (\<forall>j. j < n \<and> j < length xs \<longrightarrow> P (xs ! j))"
  by (simp add: list_all_iff all_take_conv)

lemma ctx_inv_alt:
  "ctx_inv K c \<longleftrightarrow>
     length (bnArray c) = nat (BN_CTX_ARRAY_SIZE K) \<and> length (stack c) = nat (BN_CTX_ARRAY_SIZE K)
     \<and> 0 \<le> bnArrayMax c \<and> bnArrayMax c \<le> BN_CTX_ARRAY_SIZE K
     \<and> 0 \<le> stackPos c \<and> stackPos c < BN_CTX_ARRAY_SIZE K
     \<and> (\<forall>j. j \<le> nat (stackPos c) \<longrightarrow> 0 \<le> stack c ! j \<and> stack c ! j \<le> bnArrayMax c)
     \<and> (\<forall>i j. i \<le> j \<and> j \<le> nat (stackPos c) \<longrightarrow> stack c ! i \<le> stack c ! j)
     \<and> (bnArrayMax c < BN_CTX_ARRAY_SIZE K \<or> frame_top c = BN_CTX_ARRAY_SIZE K)
     \<and> (\<forall>j. j < nat (BN_CTX_ARRAY_SIZE K) \<longrightarrow> pool_bn K (bnArray c ! j))"
  (is "?L \<longleftrightarrow> ?R")
proof
  assume l: ?L
  then have sz: "length (stack c) = nat (BN_CTX_ARRAY_SIZE K)" "length (bnArray c) = nat (BN_CTX_ARRAY_SIZE K)"
    and sane: "sanityCheckBNCTX K c" by (simp_all add: ctx_inv_def)
  from sane have b: "0 \<le> bnArrayMax c" "bnArrayMax c \<le> BN_CTX_ARRAY_SIZE K"
    "0 \<le> stackPos c" "stackPos c < BN_CTX_ARRAY_SIZE K"
    by (auto simp: sanityCheckBNCTX_def split: if_splits)
  have in_len: "\<And>j. j \<le> nat (stackPos c) \<Longrightarrow> j < length (stack c)" using b sz by linarith
  from l have "list_all (\<lambda>x. 0 \<le> x \<and> x \<le> bnArrayMax c) (take (nat (stackPos c) + 1) (stack c))"
    and "sorted (take (nat (stackPos c) + 1) (stack c))"
    and "list_all (pool_bn K) (bnArray c)"
    and "bnArrayMax c < BN_CTX_ARRAY_SIZE K \<or> frame_top c = BN_CTX_ARRAY_SIZE K"
    by (simp_all add: ctx_inv_def)
  then show ?R using sz b in_len
    by (simp add: list_all_take_conv sorted_take_conv list_all_length)
next
  assume r: ?R
  then have sz: "length (stack c) = nat (BN_CTX_ARRAY_SIZE K)" "length (bnArray c) = nat (BN_CTX_ARRAY_SIZE K)"
    and b: "0 \<le> bnArrayMax c" "bnArrayMax c \<le> BN_CTX_ARRAY_SIZE K"
    "0 \<le> stackPos c" "stackPos c < BN_CTX_ARRAY_SIZE K" by simp_all
  have sane: "sanityCheckBNCTX K c" using b by (simp add: sanityCheckBNCTX_def)
  show ?L using r sane
    by (simp add: ctx_inv_def list_all_take_conv sorted_take_conv list_all_length)
qed

lemma BN_clear_pool:
  assumes "pool_bn K b"
  shows "\<exists>b'. BN_clear K b = Normal b' \<and> cleared b' \<and> pool_bn K b'
           \<and> dmax b' = dmax b \<and> flags b' = flags b \<and> length (bn_d b') = length (bn_d b)"
proof -
  let ?b = "b\<lparr>bn_d := replicate (nat (dmax b)) 0 @ drop (nat (dmax b)) (bn_d b), bn_top := 0, neg := 0\<rparr>"
  have sane: "sanityCheckBignum K b" and st: "nat (dmax b) \<le> length (bn_d b)"
    and ns: "\<not> flag_set (flags b) (BN_FLG_STATIC_DATA K)"
    using assms by (simp_all add: pool_bn_def bn_storage_def)
  have r: "BN_clear K b = Normal ?b" using sane st ns by (simp add: BN_clear_def)
  have g: "getBNMaxSize K ?b = getBNMaxSize K b" by (simp add: getBNMaxSize_def)
  have s: "sanityCheckBignum K ?b" using sane g by (simp add: sanity_iff FALSE_def)
  have "pool_bn K ?b" using s ns st by (simp add: pool_bn_def bn_storage_def)
  moreover have "cleared ?b" by (simp add: cleared_def)
  ultimately show ?thesis using r st by simp
qed

lemma end_loop_result:
  assumes "\<forall>j < length arr. pool_bn K (arr ! j)" and "0 \<le> lo"
    and "length arr = nat (BN_CTX_ARRAY_SIZE K)"
  shows "\<exists>arr'. end_loop K arr lo hi = Some (arr', max lo (min hi (BN_CTX_ARRAY_SIZE K)))
           \<and> length arr' = length arr
           \<and> (\<forall>j < length arr. pool_bn K (arr' ! j)
                \<and> (lo \<le> int j \<and> int j < hi \<longrightarrow> cleared (arr' ! j))
                \<and> (\<not> (lo \<le> int j \<and> int j < hi) \<longrightarrow> arr' ! j = arr ! j))"
  using assms
proof (induction K arr lo hi rule: end_loop.induct)
  case (1 K arr i hi)
  show ?case
  proof (cases "i < hi \<and> i < BN_CTX_ARRAY_SIZE K")
    case False
    have "end_loop K arr i hi = Some (arr, i)" using False by (subst end_loop.simps) auto
    moreover have "max i (min hi (BN_CTX_ARRAY_SIZE K)) = i" using False by auto
    moreover have "\<And>j. j < length arr \<Longrightarrow> \<not> (i \<le> int j \<and> int j < hi)"
      using False "1.prems"(3) by auto
    ultimately show ?thesis using "1.prems"(1) by auto
  next
    case True
    have rng: "0 \<le> i \<and> nat i < length arr" using True "1.prems" by auto
    then have "pool_bn K (arr ! nat i)" using "1.prems"(1) by simp
    then obtain b where b: "BN_clear K (arr ! nat i) = Normal b" "cleared b" "pool_bn K b"
      using BN_clear_pool by blast
    then have pb: "payload (BN_clear K (arr ! nat i)) = Some b" by simp
    have p': "\<forall>j < length (arr[nat i := b]). pool_bn K (arr[nat i := b] ! j)"
      using "1.prems"(1) b(3) rng by (auto simp: nth_list_update)
    from "1.IH"[OF True rng pb p'] "1.prems"(2,3)
    obtain arr' where r: "end_loop K (arr[nat i := b]) (i + 1) hi
          = Some (arr', max (i + 1) (min hi (BN_CTX_ARRAY_SIZE K)))"
      "length arr' = length arr"
      "\<And>j. j < length arr \<Longrightarrow> pool_bn K (arr' ! j)"
      "\<And>j. j < length arr \<Longrightarrow> i + 1 \<le> int j \<Longrightarrow> int j < hi \<Longrightarrow> cleared (arr' ! j)"
      "\<And>j. j < length arr \<Longrightarrow> \<not> (i + 1 \<le> int j \<and> int j < hi) \<Longrightarrow> arr' ! j = arr[nat i := b] ! j"
      by auto
    have e: "end_loop K arr i hi = Some (arr', max i (min hi (BN_CTX_ARRAY_SIZE K)))"
      using True rng pb r(1) by (subst end_loop.simps) (simp add: max_def min_def)
    have c: "\<And>j. j < length arr \<Longrightarrow> i \<le> int j \<Longrightarrow> int j < hi \<Longrightarrow> cleared (arr' ! j)"
    proof -
      fix j assume j: "j < length arr" "i \<le> int j" "int j < hi"
      show "cleared (arr' ! j)"
      proof (cases "int j = i")
        case True
        have nj: "nat i = j" using True by auto
        have "\<not> (i + 1 \<le> int j \<and> int j < hi)" using True by simp
        then have "arr' ! j = arr[nat i := b] ! j" using r(5)[OF j(1)] by simp
        also have "\<dots> = b" using nj j(1) by simp
        finally show ?thesis using b(2) by simp
      next
        case False
        then show ?thesis using r(4)[of j] j by simp
      qed
    qed
    have u: "\<And>j. j < length arr \<Longrightarrow> \<not> (i \<le> int j \<and> int j < hi) \<Longrightarrow> arr' ! j = arr ! j"
    proof -
      fix j assume j: "j < length arr" "\<not> (i \<le> int j \<and> int j < hi)"
      then have "arr' ! j = arr[nat i := b] ! j" using r(5)[of j] by auto
      moreover have "int j \<noteq> i" using j(2) True by auto
      then have "j \<noteq> nat i" using rng by auto
      ultimately show "arr' ! j = arr ! j" by simp
    qed
    show ?thesis using e r(2,3) c u by auto
  qed
qed

lemma ctx_inv_sane: "ctx_inv K c \<Longrightarrow> sanityCheckBNCTX K c"
  by (simp add: ctx_inv_def)

lemma sanityCheckBNCTX_iff:
  "sanityCheckBNCTX K c \<longleftrightarrow> 0 \<le> bnArrayMax c \<and> bnArrayMax c \<le> BN_CTX_ARRAY_SIZE K
      \<and> 0 \<le> stackPos c \<and> stackPos c < BN_CTX_ARRAY_SIZE K"
  by (auto simp: sanityCheckBNCTX_def)

lemma ctx_inv_frame_top:
  assumes "ctx_inv K c"
  shows "0 \<le> frame_top c" and "frame_top c \<le> bnArrayMax c" and "frame_top c \<le> BN_CTX_ARRAY_SIZE K"
    and "nat (stackPos c) < length (stack c)" and "0 \<le> stackPos c"
    and "0 < stackPos c \<Longrightarrow> 0 \<le> stack c ! nat (stackPos c - 1)"
    and "0 < stackPos c \<Longrightarrow> stack c ! nat (stackPos c - 1) \<le> frame_top c"
proof -
  note a = assms[unfolded ctx_inv_alt]
  show "0 \<le> frame_top c" "frame_top c \<le> bnArrayMax c" using a by (auto simp: frame_top_def)
  then show "frame_top c \<le> BN_CTX_ARRAY_SIZE K" using a by linarith
  show "nat (stackPos c) < length (stack c)" using a by linarith
  show "0 \<le> stackPos c" using a by simp
  show "0 < stackPos c \<Longrightarrow> 0 \<le> stack c ! nat (stackPos c - 1)" using a by auto
  show "0 < stackPos c \<Longrightarrow> stack c ! nat (stackPos c - 1) \<le> frame_top c"
  proof -
    assume "0 < stackPos c"
    then have "nat (stackPos c - 1) \<le> nat (stackPos c) \<and> nat (stackPos c) \<le> nat (stackPos c)" by simp
    then show ?thesis using a unfolding frame_top_def by blast
  qed
qed

lemma BN_CTX_start_inv:
  assumes "ctx_inv K c" and "stackPos c + 1 < BN_CTX_ARRAY_SIZE K"
  shows "BN_CTX_start K c =
           Normal (c\<lparr>stackPos := stackPos c + 1,
                      stack := (stack c)[nat (stackPos c + 1) := frame_top c]\<rparr>)"
    and "ctx_inv K (c\<lparr>stackPos := stackPos c + 1,
                      stack := (stack c)[nat (stackPos c + 1) := frame_top c]\<rparr>)"
proof -
  note a = assms(1)[unfolded ctx_inv_alt]
  let ?c = "c\<lparr>stackPos := stackPos c + 1, stack := (stack c)[nat (stackPos c + 1) := frame_top c]\<rparr>"
  have sp: "0 \<le> stackPos c" and len: "nat (stackPos c + 1) < length (stack c)"
    using a assms(2) by auto
  have s': "sanityCheckBNCTX K ?c" using a assms(2) by (simp add: sanityCheckBNCTX_iff)
  show "BN_CTX_start K c = Normal ?c"
    using ctx_inv_sane[OF assms(1)] sp len s'
    by (simp add: BN_CTX_start_def Let_def frame_top_def)
  have n: "nat (stackPos c + 1) = Suc (nat (stackPos c))" using sp by simp
  have ft: "frame_top ?c = frame_top c" using len by (simp add: frame_top_def)
  have st: "\<And>j. j \<le> Suc (nat (stackPos c)) \<Longrightarrow>
      stack ?c ! j = (if j = Suc (nat (stackPos c)) then frame_top c else stack c ! j)"
    using len n by (simp add: nth_list_update)
  have b: "\<forall>j. j \<le> nat (stackPos ?c) \<longrightarrow> 0 \<le> stack ?c ! j \<and> stack ?c ! j \<le> bnArrayMax ?c"
    using a ctx_inv_frame_top[OF assms(1)] n st by (auto simp del: list_update_overwrite)
  have m: "\<forall>i j. i \<le> j \<and> j \<le> nat (stackPos ?c) \<longrightarrow> stack ?c ! i \<le> stack ?c ! j"
  proof (intro allI impI)
    fix i j assume ij: "i \<le> j \<and> j \<le> nat (stackPos ?c)"
    then have j: "j \<le> Suc (nat (stackPos c))" and i: "i \<le> Suc (nat (stackPos c))" using n by auto
    show "stack ?c ! i \<le> stack ?c ! j"
    proof (cases "j = Suc (nat (stackPos c))")
      case True
      show ?thesis
      proof (cases "i = Suc (nat (stackPos c))")
        case True with \<open>j = Suc (nat (stackPos c))\<close> show ?thesis by simp
      next
        case False
        then have "i \<le> nat (stackPos c)" using i by simp
        then have "stack c ! i \<le> frame_top c" using a unfolding frame_top_def by blast
        then show ?thesis using st[OF i] st[OF j] True False by simp
      qed
    next
      case False
      then have "j \<le> nat (stackPos c)" "i \<noteq> Suc (nat (stackPos c))" using j ij by auto
      then show ?thesis using st[OF i] st[OF j] False a ij by auto
    qed
  qed
  show "ctx_inv K ?c"
    unfolding ctx_inv_alt using a assms(2) b m ft by simp
qed

lemma BN_CTX_start_full:
  assumes "ctx_inv K c" and "stackPos c + 1 = BN_CTX_ARRAY_SIZE K"
  shows "BN_CTX_start K c = Undefined"
  using assms ctx_inv_sane[OF assms(1)]
  by (simp add: BN_CTX_start_def Let_def ctx_inv_alt)

lemma BN_CTX_get_exhausted:
  assumes "ctx_inv K c" and "\<not> frame_top c < BN_CTX_ARRAY_SIZE K"
  shows "BN_CTX_get K c = Normal (None, c)"
proof -
  have "bnArrayMax c \<ge> BN_CTX_ARRAY_SIZE K"
    using ctx_inv_frame_top(2)[OF assms(1)] assms(2) by linarith
  then show ?thesis
    using ctx_inv_frame_top(4,5)[OF assms(1)] by (simp add: BN_CTX_get_def Let_def)
qed

lemma BN_CTX_get_inv:
  assumes "ctx_inv K c" and "frame_top c < BN_CTX_ARRAY_SIZE K"
  shows "BN_CTX_get K c =
           Normal (Some (Pool (frame_top c)),
                   c\<lparr>stack := (stack c)[nat (stackPos c) := frame_top c + 1],
                     bnArrayMax := max (bnArrayMax c) (frame_top c + 1)\<rparr>)"
    and "ctx_inv K (c\<lparr>stack := (stack c)[nat (stackPos c) := frame_top c + 1],
                      bnArrayMax := max (bnArrayMax c) (frame_top c + 1)\<rparr>)"
proof -
  note a = assms(1)[unfolded ctx_inv_alt]
  note f = ctx_inv_frame_top[OF assms(1)]
  let ?c = "c\<lparr>stack := (stack c)[nat (stackPos c) := frame_top c + 1],
               bnArrayMax := max (bnArrayMax c) (frame_top c + 1)\<rparr>"
  have lt: "bnArrayMax c < BN_CTX_ARRAY_SIZE K" using a assms(2) by auto
  have s': "sanityCheckBNCTX K ?c" using a assms(2) f by (simp add: sanityCheckBNCTX_iff)
  have e: "(if frame_top c + 1 > bnArrayMax c
            then c\<lparr>stack := (stack c)[nat (stackPos c) := frame_top c + 1], bnArrayMax := frame_top c + 1\<rparr>
            else c\<lparr>stack := (stack c)[nat (stackPos c) := frame_top c + 1]\<rparr>) = ?c"
    by (simp add: max_def)
  show "BN_CTX_get K c = Normal (Some (Pool (frame_top c)), ?c)"
  proof (cases "frame_top c + 1 > bnArrayMax c")
    case True
    then have "?c = c\<lparr>stack := (stack c)[nat (stackPos c) := frame_top c + 1], bnArrayMax := frame_top c + 1\<rparr>"
      by (simp add: max_def)
    then show ?thesis
      using ctx_inv_sane[OF assms(1)] f(4,5) lt s' True
      by (simp add: BN_CTX_get_def Let_def frame_top_def[symmetric])
  next
    case False
    then have "?c = c\<lparr>stack := (stack c)[nat (stackPos c) := frame_top c + 1]\<rparr>"
      by (simp add: max_def)
    then show ?thesis
      using ctx_inv_sane[OF assms(1)] f(4,5) lt s' False
      by (simp add: BN_CTX_get_def Let_def frame_top_def[symmetric])
  qed
  have st: "\<And>j. j \<le> nat (stackPos c) \<Longrightarrow>
      stack ?c ! j = (if j = nat (stackPos c) then frame_top c + 1 else stack c ! j)"
    using f(4) by (simp add: nth_list_update)
  have ft: "frame_top ?c = frame_top c + 1" using f(4) by (simp add: frame_top_def)
  have b: "\<forall>j. j \<le> nat (stackPos ?c) \<longrightarrow> 0 \<le> stack ?c ! j \<and> stack ?c ! j \<le> bnArrayMax ?c"
  proof (intro allI impI)
    fix j assume "j \<le> nat (stackPos ?c)"
    then have j: "j \<le> nat (stackPos c)" by simp
    then have "0 \<le> stack c ! j \<and> stack c ! j \<le> bnArrayMax c" using a by blast
    then show "0 \<le> stack ?c ! j \<and> stack ?c ! j \<le> bnArrayMax ?c"
      using st[OF j] f(1) by (auto simp: max_def)
  qed
  have m: "\<forall>i j. i \<le> j \<and> j \<le> nat (stackPos ?c) \<longrightarrow> stack ?c ! i \<le> stack ?c ! j"
  proof (intro allI impI)
    fix i j assume ij: "i \<le> j \<and> j \<le> nat (stackPos ?c)"
    then have j: "j \<le> nat (stackPos c)" and i: "i \<le> nat (stackPos c)" by auto
    have o: "stack c ! i \<le> stack c ! j" using a ij by simp
    have t: "stack c ! i \<le> frame_top c" using a i unfolding frame_top_def by blast
    show "stack ?c ! i \<le> stack ?c ! j"
    proof (cases "j = nat (stackPos c)")
      case True
      then show ?thesis using st[OF i] st[OF j] t by auto
    next
      case False
      then have "i \<noteq> nat (stackPos c)" using ij by auto
      then show ?thesis using st[OF i] st[OF j] False o by simp
    qed
  qed
  have full: "bnArrayMax ?c < BN_CTX_ARRAY_SIZE K \<or> frame_top ?c = BN_CTX_ARRAY_SIZE K"
    using lt ft assms(2) by (auto simp: max_def)
  show "ctx_inv K ?c"
    unfolding ctx_inv_alt using a b m full f assms(2) by (simp add: max_def)
qed

lemma BN_CTX_end_run:
  assumes "ctx_inv K c" and "0 < stackPos c"
  shows "\<exists>arr. end_loop K (bnArray c) (stack c ! nat (stackPos c - 1)) (frame_top c)
                  = Some (arr, frame_top c)
           \<and> length arr = length (bnArray c)
           \<and> (\<forall>j < length (bnArray c). pool_bn K (arr ! j)
                \<and> (stack c ! nat (stackPos c - 1) \<le> int j \<and> int j < frame_top c \<longrightarrow> cleared (arr ! j))
                \<and> (\<not> (stack c ! nat (stackPos c - 1) \<le> int j \<and> int j < frame_top c)
                      \<longrightarrow> arr ! j = bnArray c ! j))
           \<and> BN_CTX_end K c =
               (if \<not> frame_top c < BN_CTX_ARRAY_SIZE K then IntError (c\<lparr>bnArray := arr\<rparr>)
                else Normal (c\<lparr>bnArray := arr, stack := (stack c)[nat (stackPos c) := 0],
                              stackPos := stackPos c - 1\<rparr>))"
proof -
  note a = assms(1)[unfolded ctx_inv_alt]
  note f = ctx_inv_frame_top[OF assms(1)]
  let ?lo = "stack c ! nat (stackPos c - 1)"
  have p: "\<forall>j < length (bnArray c). pool_bn K (bnArray c ! j)" using a by simp
  have mx: "max ?lo (min (frame_top c) (BN_CTX_ARRAY_SIZE K)) = frame_top c"
    using f(3) f(7)[OF assms(2)] by simp
  from end_loop_result[OF p f(6)[OF assms(2)], of "frame_top c"] a mx
  obtain arr where arr: "end_loop K (bnArray c) ?lo (frame_top c) = Some (arr, frame_top c)"
    "length arr = length (bnArray c)"
    "\<forall>j < length (bnArray c). pool_bn K (arr ! j)
        \<and> (?lo \<le> int j \<and> int j < frame_top c \<longrightarrow> cleared (arr ! j))
        \<and> (\<not> (?lo \<le> int j \<and> int j < frame_top c) \<longrightarrow> arr ! j = bnArray c ! j)"
    by auto
  have s2: "sanityCheckBNCTX K (c\<lparr>bnArray := arr, stack := (stack c)[nat (stackPos c) := 0],
                              stackPos := stackPos c - 1\<rparr>)"
    using a assms(2) by (simp add: sanityCheckBNCTX_iff)
  have "BN_CTX_end K c =
               (if \<not> frame_top c < BN_CTX_ARRAY_SIZE K then IntError (c\<lparr>bnArray := arr\<rparr>)
                else Normal (c\<lparr>bnArray := arr, stack := (stack c)[nat (stackPos c) := 0],
                              stackPos := stackPos c - 1\<rparr>))"
    using ctx_inv_sane[OF assms(1)] assms(2) f(4) f(7)[OF assms(2)] arr(1) s2
    by (simp add: BN_CTX_end_def Let_def frame_top_def[symmetric])
  then show ?thesis using arr by blast
qed

lemma ctx_inv_bnArray:
  assumes "ctx_inv K c" and "length arr = length (bnArray c)"
    and "\<forall>j < length (bnArray c). pool_bn K (arr ! j)"
  shows "ctx_inv K (c\<lparr>bnArray := arr\<rparr>)"
  using assms unfolding ctx_inv_alt by (simp add: frame_top_def)

lemma BN_CTX_end_inv:
  assumes "ctx_inv K c" and "0 < stackPos c" and "frame_top c < BN_CTX_ARRAY_SIZE K"
  shows "\<exists>c'. BN_CTX_end K c = Normal c' \<and> ctx_inv K c'
           \<and> stackPos c' = stackPos c - 1 \<and> frame_top c' = stack c ! nat (stackPos c - 1)
           \<and> stack c' = (stack c)[nat (stackPos c) := 0] \<and> bnArrayMax c' = bnArrayMax c
           \<and> bnExtArray c' = bnExtArray c \<and> bnExt2Array c' = bnExt2Array c
           \<and> (\<forall>j < length (bnArray c).
                 (stack c ! nat (stackPos c - 1) \<le> int j \<and> int j < frame_top c \<longrightarrow> cleared (bnArray c' ! j))
               \<and> (\<not> (stack c ! nat (stackPos c - 1) \<le> int j \<and> int j < frame_top c)
                     \<longrightarrow> bnArray c' ! j = bnArray c ! j))"
proof -
  note a = assms(1)[unfolded ctx_inv_alt]
  note f = ctx_inv_frame_top[OF assms(1)]
  from BN_CTX_end_run[OF assms(1,2)] assms(3)
  obtain arr where arr: "length arr = length (bnArray c)"
    "\<forall>j < length (bnArray c). pool_bn K (arr ! j)
        \<and> (stack c ! nat (stackPos c - 1) \<le> int j \<and> int j < frame_top c \<longrightarrow> cleared (arr ! j))
        \<and> (\<not> (stack c ! nat (stackPos c - 1) \<le> int j \<and> int j < frame_top c) \<longrightarrow> arr ! j = bnArray c ! j)"
    and r: "BN_CTX_end K c = Normal (c\<lparr>bnArray := arr, stack := (stack c)[nat (stackPos c) := 0],
                              stackPos := stackPos c - 1\<rparr>)"
    by auto
  let ?c = "c\<lparr>bnArray := arr, stack := (stack c)[nat (stackPos c) := 0], stackPos := stackPos c - 1\<rparr>"
  have lt: "bnArrayMax c < BN_CTX_ARRAY_SIZE K" using a assms(3) by auto
  have st: "\<And>j. j \<le> nat (stackPos c - 1) \<Longrightarrow> stack ?c ! j = stack c ! j"
    using assms(2) by simp
  have ft: "frame_top ?c = stack c ! nat (stackPos c - 1)"
    using assms(2) by (simp add: frame_top_def)
  have b: "\<forall>j. j \<le> nat (stackPos ?c) \<longrightarrow> 0 \<le> stack ?c ! j \<and> stack ?c ! j \<le> bnArrayMax ?c"
  proof (intro allI impI)
    fix j assume "j \<le> nat (stackPos ?c)"
    then have j: "j \<le> nat (stackPos c - 1)" by simp
    then have "j \<le> nat (stackPos c)" by simp
    then have "0 \<le> stack c ! j \<and> stack c ! j \<le> bnArrayMax c" using a by blast
    then show "0 \<le> stack ?c ! j \<and> stack ?c ! j \<le> bnArrayMax ?c" using st[OF j] by simp
  qed
  have m: "\<forall>i j. i \<le> j \<and> j \<le> nat (stackPos ?c) \<longrightarrow> stack ?c ! i \<le> stack ?c ! j"
  proof (intro allI impI)
    fix i j assume ij: "i \<le> j \<and> j \<le> nat (stackPos ?c)"
    then have j: "j \<le> nat (stackPos c - 1)" and i: "i \<le> nat (stackPos c - 1)" by auto
    then have "i \<le> j \<and> j \<le> nat (stackPos c)" using ij by simp
    then have "stack c ! i \<le> stack c ! j" using a by blast
    then show "stack ?c ! i \<le> stack ?c ! j" using st[OF i] st[OF j] by simp
  qed
  have inv: "ctx_inv K ?c"
    unfolding ctx_inv_alt using a assms(2) b m lt arr by simp
  show ?thesis using r inv ft arr(2) by simp
qed

lemma BN_CTX_end_full:
  assumes "ctx_inv K c" and "0 < stackPos c" and "frame_top c = BN_CTX_ARRAY_SIZE K"
  shows "\<exists>c'. BN_CTX_end K c = IntError c' \<and> ctx_inv K c'
           \<and> stackPos c' = stackPos c \<and> stack c' = stack c \<and> bnArrayMax c' = bnArrayMax c
           \<and> bnExtArray c' = bnExtArray c \<and> bnExt2Array c' = bnExt2Array c
           \<and> (\<forall>j < length (bnArray c).
                 (stack c ! nat (stackPos c - 1) \<le> int j \<longrightarrow> cleared (bnArray c' ! j))
               \<and> (\<not> stack c ! nat (stackPos c - 1) \<le> int j \<longrightarrow> bnArray c' ! j = bnArray c ! j))"
proof -
  note a = assms(1)[unfolded ctx_inv_alt]
  from BN_CTX_end_run[OF assms(1,2)] assms(3)
  obtain arr where arr: "length arr = length (bnArray c)"
    "\<forall>j < length (bnArray c). pool_bn K (arr ! j)
        \<and> (stack c ! nat (stackPos c - 1) \<le> int j \<and> int j < frame_top c \<longrightarrow> cleared (arr ! j))
        \<and> (\<not> (stack c ! nat (stackPos c - 1) \<le> int j \<and> int j < frame_top c) \<longrightarrow> arr ! j = bnArray c ! j)"
    and r: "BN_CTX_end K c = IntError (c\<lparr>bnArray := arr\<rparr>)"
    by auto
  have inv: "ctx_inv K (c\<lparr>bnArray := arr\<rparr>)"
    using ctx_inv_bnArray[OF assms(1) arr(1)] arr(2) by simp
  have in_rng: "\<And>j. j < length (bnArray c) \<Longrightarrow> int j < frame_top c"
    using a assms(3) by auto
  show ?thesis using r inv arr(2) in_rng by simp
qed

lemma ctx_inv_init:
  assumes "1 \<le> BN_CTX_ARRAY_SIZE K" and "pool_bn K (BN_init K :: 'w::len word BIGNUM)"
  shows "ctx_inv K (BN_CTX_init K :: 'w word BN_CTX)"
  unfolding ctx_inv_alt using assms by (simp add: BN_CTX_init_def frame_top_def)

lemma ctx_inv_store:
  assumes "ctx_inv K c" and "0 \<le> i" and "i < BN_CTX_ARRAY_SIZE K" and "pool_bn K b"
  shows "ctx_inv K (store c (Pool i) b)"
proof -
  note a = assms(1)[unfolded ctx_inv_alt]
  have "nat i < length (bnArray c)" using a assms(2,3) by simp
  then have "\<forall>j < length (bnArray c). pool_bn K ((bnArray c)[nat i := b] ! j)"
    using a assms(4) by (auto simp: nth_list_update)
  then show ?thesis using ctx_inv_bnArray[OF assms(1), of "(bnArray c)[nat i := b]"] by simp
qed


text \<open>Every context a user can reach satisfies the invariant.\<close>

lemma reachable_ctx_inv:
  assumes "1 \<le> BN_CTX_ARRAY_SIZE K" and "pool_bn K (BN_init K :: 'w::len word BIGNUM)"
    and "reachable K (c :: 'w word BN_CTX)"
  shows "ctx_inv K c"
  using assms(3)
proof (induction rule: reachable.induct)
  case r_init
  show ?case using ctx_inv_init[OF assms(1,2)] .
next
  case (r_start c c')
  show ?case
  proof (cases "stackPos c + 1 < BN_CTX_ARRAY_SIZE K")
    case True
    then show ?thesis using BN_CTX_start_inv[OF r_start.IH True] r_start.hyps(2) by simp
  next
    case False
    have "stackPos c < BN_CTX_ARRAY_SIZE K" using r_start.IH unfolding ctx_inv_alt by simp
    then have "stackPos c + 1 = BN_CTX_ARRAY_SIZE K" using False by simp
    then show ?thesis using BN_CTX_start_full[OF r_start.IH] r_start.hyps(2) by simp
  qed
next
  case (r_get c p c')
  show ?case
  proof (cases "frame_top c < BN_CTX_ARRAY_SIZE K")
    case True
    then show ?thesis using BN_CTX_get_inv[OF r_get.IH True] r_get.hyps(2) by simp
  next
    case False
    then show ?thesis using BN_CTX_get_exhausted[OF r_get.IH False] r_get.hyps(2) r_get.IH by simp
  qed
next
  case (r_end c c')
  show ?case
  proof (cases "0 < stackPos c")
    case False
    then have "BN_CTX_end K c = Undefined"
      using ctx_inv_sane[OF r_end.IH] by (simp add: BN_CTX_end_def Let_def)
    then show ?thesis using r_end.hyps(2) by simp
  next
    case True
    show ?thesis
    proof (cases "frame_top c < BN_CTX_ARRAY_SIZE K")
      case lt: True
      then show ?thesis using BN_CTX_end_inv[OF r_end.IH True lt] r_end.hyps(2) by auto
    next
      case False
      then have "frame_top c = BN_CTX_ARRAY_SIZE K" using ctx_inv_frame_top(3)[OF r_end.IH] by simp
      then show ?thesis using BN_CTX_end_full[OF r_end.IH True] r_end.hyps(2) by auto
    qed
  qed
next
  case (r_write c i b)
  then show ?case using ctx_inv_store by blast
qed


section \<open>Acquiring and releasing below the capacity\<close>

lemma BN_set_word_pool:
  assumes "pool_bn K b"
  shows "\<exists>b'. BN_set_word K b w = Normal b' \<and> pool_bn K b'
           \<and> bn_top b' = (if w \<noteq> 0 then 1 else 0) \<and> bn_d b' ! 0 = w"
proof -
  obtain c where c: "BN_clear K b = Normal c" "cleared c" "pool_bn K c"
    using BN_clear_pool[OF assms] by blast
  have sane: "sanityCheckBignum K b" and ns: "\<not> flag_set (flags b) (BN_FLG_STATIC_DATA K)"
    using assms by (simp_all add: pool_bn_def)
  have cs: "sanityCheckBignum K c" and cst: "nat (dmax c) \<le> length (bn_d c)"
    and cns: "\<not> flag_set (flags c) (BN_FLG_STATIC_DATA K)"
    using c(3) by (simp_all add: pool_bn_def bn_storage_def)
  have l: "0 < length (bn_d c)" using sane_bounds[OF cs] cst by linarith
  let ?b = "c\<lparr>bn_d := (bn_d c)[0 := w], bn_top := (if w \<noteq> 0 then 1 else 0)\<rparr>"
  have r: "BN_set_word K b w = Normal ?b" using sane ns c(1) l by (simp add: BN_set_word_def)
  have g: "getBNMaxSize K ?b = getBNMaxSize K c" by (simp add: getBNMaxSize_def)
  have "sanityCheckBignum K ?b" using cs g sane_bounds[OF cs] by (simp add: sanity_iff)
  then have "pool_bn K ?b" using cst cns by (simp add: pool_bn_def bn_storage_def)
  then show ?thesis using r l by simp
qed

lemma fill_below_capacity:
  assumes "ctx_inv K c" and "frame_top c + int (length ws) \<le> BN_CTX_ARRAY_SIZE K"
  shows "\<exists>c'. fill K c ws = Some c' \<and> ctx_inv K c' \<and> stackPos c' = stackPos c
           \<and> frame_top c' = frame_top c + int (length ws)
           \<and> (\<forall>j. j < nat (stackPos c) \<longrightarrow> stack c' ! j = stack c ! j)
           \<and> (\<forall>j. int j < frame_top c \<longrightarrow> bnArray c' ! j = bnArray c ! j)
           \<and> (\<forall>k < length ws. bn_d (bnArray c' ! (nat (frame_top c) + k)) ! 0 = ws ! k)"
  using assms
proof (induction ws arbitrary: c)
  case Nil
  then show ?case by simp
next
  case (Cons w ws)
  note f = ctx_inv_frame_top[OF Cons.prems(1)]
  have lt: "frame_top c < BN_CTX_ARRAY_SIZE K" using Cons.prems(2) by simp
  let ?c1 = "c\<lparr>stack := (stack c)[nat (stackPos c) := frame_top c + 1],
               bnArrayMax := max (bnArrayMax c) (frame_top c + 1)\<rparr>"
  note g = BN_CTX_get_inv[OF Cons.prems(1) lt]
  have len: "length (bnArray c) = nat (BN_CTX_ARRAY_SIZE K)" using Cons.prems(1) by (simp add: ctx_inv_def)
  have il: "nat (frame_top c) < length (bnArray c)" using f(1) lt len by linarith
  have "pool_bn K (bnArray c ! nat (frame_top c))"
    using Cons.prems(1) il len unfolding ctx_inv_alt by simp
  then obtain b' where b': "BN_set_word K (bnArray c ! nat (frame_top c)) w = Normal b'" "pool_bn K b'"
    "bn_d b' ! 0 = w"
    using BN_set_word_pool by blast
  let ?c2 = "store ?c1 (Pool (frame_top c)) b'"
  have sw: "set_word_at K ?c1 (Pool (frame_top c)) w = Some ?c2"
    using f(1) il b'(1) by (simp add: set_word_at_def)
  have inv2: "ctx_inv K ?c2" using ctx_inv_store[OF g(2) f(1) lt b'(2)] .
  have ft2: "frame_top ?c2 = frame_top c + 1" using f(4) by (simp add: frame_top_def)
  have cap: "frame_top ?c2 + int (length ws) \<le> BN_CTX_ARRAY_SIZE K" using ft2 Cons.prems(2) by simp
  from Cons.IH[OF inv2 cap] obtain c' where c': "fill K ?c2 ws = Some c'" "ctx_inv K c'"
    "stackPos c' = stackPos ?c2" "frame_top c' = frame_top ?c2 + int (length ws)"
    "\<forall>j. j < nat (stackPos ?c2) \<longrightarrow> stack c' ! j = stack ?c2 ! j"
    "\<forall>j. int j < frame_top ?c2 \<longrightarrow> bnArray c' ! j = bnArray ?c2 ! j"
    "\<forall>k < length ws. bn_d (bnArray c' ! (nat (frame_top ?c2) + k)) ! 0 = ws ! k"
    by blast
  have run: "fill K c (w # ws) = Some c'" using g(1) sw c'(1) by simp
  have s: "\<forall>j. j < nat (stackPos c) \<longrightarrow> stack c' ! j = stack c ! j"
    using c'(5) by simp
  have low: "\<forall>j. int j < frame_top c \<longrightarrow> bnArray c' ! j = bnArray c ! j"
  proof (intro allI impI)
    fix j assume j: "int j < frame_top c"
    then have "bnArray c' ! j = bnArray ?c2 ! j" using c'(6) ft2 by simp
    moreover have "j \<noteq> nat (frame_top c)" using j by linarith
    ultimately show "bnArray c' ! j = bnArray c ! j" by simp
  qed
  have vals: "\<forall>k < length (w # ws). bn_d (bnArray c' ! (nat (frame_top c) + k)) ! 0 = (w # ws) ! k"
  proof (intro allI impI)
    fix k assume k: "k < length (w # ws)"
    show "bn_d (bnArray c' ! (nat (frame_top c) + k)) ! 0 = (w # ws) ! k"
    proof (cases k)
      case 0
      have "int (nat (frame_top c)) < frame_top ?c2" using ft2 f(1) by simp
      then have "bnArray c' ! nat (frame_top c) = bnArray ?c2 ! nat (frame_top c)" using c'(6) by blast
      also have "\<dots> = b'" using il by simp
      finally show ?thesis using 0 b'(3) by simp
    next
      case (Suc k')
      then have "k' < length ws" using k by simp
      then have "bn_d (bnArray c' ! (nat (frame_top ?c2) + k')) ! 0 = ws ! k'" using c'(7) by blast
      moreover have "nat (frame_top ?c2) + k' = nat (frame_top c) + k" using ft2 f(1) Suc by simp
      ultimately show ?thesis using Suc by simp
    qed
  qed
  show ?case using run c'(2,3,4) ft2 s low vals by simp
qed

lemma get_n_below_capacity:
  assumes "ctx_inv K c" and "frame_top c + int n \<le> BN_CTX_ARRAY_SIZE K"
  shows "\<exists>c'. get_n K c n = Some (map (\<lambda>k. Pool (frame_top c + int k)) [0..<n], c')
           \<and> ctx_inv K c' \<and> bnArray c' = bnArray c \<and> stackPos c' = stackPos c
           \<and> frame_top c' = frame_top c + int n"
  using assms
proof (induction n arbitrary: c)
  case 0
  then show ?case by simp
next
  case (Suc n)
  note f = ctx_inv_frame_top[OF Suc.prems(1)]
  have lt: "frame_top c < BN_CTX_ARRAY_SIZE K" using Suc.prems(2) by simp
  let ?c1 = "c\<lparr>stack := (stack c)[nat (stackPos c) := frame_top c + 1],
               bnArrayMax := max (bnArrayMax c) (frame_top c + 1)\<rparr>"
  note g = BN_CTX_get_inv[OF Suc.prems(1) lt]
  have ft1: "frame_top ?c1 = frame_top c + 1" using f(4) by (simp add: frame_top_def)
  have cap: "frame_top ?c1 + int n \<le> BN_CTX_ARRAY_SIZE K" using ft1 Suc.prems(2) by simp
  from Suc.IH[OF g(2) cap] obtain c' where
    c': "get_n K ?c1 n = Some (map (\<lambda>k. Pool (frame_top ?c1 + int k)) [0..<n], c')"
      "ctx_inv K c'" "bnArray c' = bnArray ?c1" "stackPos c' = stackPos ?c1"
      "frame_top c' = frame_top ?c1 + int n"
    by blast
  have m: "map (\<lambda>k. Pool (frame_top c + int k)) [0..<Suc n]
        = Pool (frame_top c) # map (\<lambda>k. Pool (frame_top ?c1 + int k)) [0..<n]"
    unfolding ft1 by (simp add: upt_rec[of 0 "Suc n"] map_Suc_upt[symmetric] del: upt_Suc)
  have "get_n K c (Suc n) = Some (map (\<lambda>k. Pool (frame_top c + int k)) [0..<Suc n], c')"
    unfolding m using g(1) c'(1) by simp
  then show ?case using c'(2,3,4,5) ft1 by simp
qed


text \<open>
  One checkpoint cycle at any depth, as long as the frame stays below the array size:
  the temporaries are handed out in order and written; \<^verbatim>\<open>BN_CTX_end\<close> returns normally,
  clears exactly them, leaves every bignum below the frame (the temporaries of all
  enclosing levels) as it was, and restores depth and frame top; a second start with as
  many gets hands out the same slots, now cleared.
\<close>

lemma checkpoint_release_below_capacity:
  assumes "ctx_inv K c" and "stackPos c + 1 < BN_CTX_ARRAY_SIZE K"
    and "frame_top c + int (length ws) < BN_CTX_ARRAY_SIZE K"
  shows "\<exists>c1 c2 c3 c4. acquire K c ws = Some c1 \<and> stackPos c1 = stackPos c + 1
           \<and> (\<forall>k < length ws. bn_d (bnArray c1 ! (nat (frame_top c) + k)) ! 0 = ws ! k)
           \<and> BN_CTX_end K c1 = Normal c2 \<and> ctx_inv K c2
           \<and> stackPos c2 = stackPos c \<and> frame_top c2 = frame_top c
           \<and> (\<forall>j. int j < frame_top c \<longrightarrow> bnArray c2 ! j = bnArray c ! j)
           \<and> (\<forall>k < length ws. cleared (bnArray c2 ! (nat (frame_top c) + k)))
           \<and> BN_CTX_start K c2 = Normal c3
           \<and> get_n K c3 (length ws)
               = Some (map (\<lambda>k. Pool (frame_top c + int k)) [0..<length ws], c4)
           \<and> bnArray c4 = bnArray c2"
proof -
  note f = ctx_inv_frame_top[OF assms(1)]
  let ?c0 = "c\<lparr>stackPos := stackPos c + 1, stack := (stack c)[nat (stackPos c + 1) := frame_top c]\<rparr>"
  note s = BN_CTX_start_inv[OF assms(1,2)]
  have slen: "length (stack c) = nat (BN_CTX_ARRAY_SIZE K)" and alen: "length (bnArray c) = nat (BN_CTX_ARRAY_SIZE K)"
    using assms(1) by (simp_all add: ctx_inv_def)
  have l1: "nat (stackPos c + 1) < length (stack c)" using slen assms(2) f(5) by linarith
  have ft0: "frame_top ?c0 = frame_top c" using l1 by (simp add: frame_top_def)
  have cap: "frame_top ?c0 + int (length ws) \<le> BN_CTX_ARRAY_SIZE K" using ft0 assms(3) by simp
  from fill_below_capacity[OF s(2) cap] obtain c1 where c1: "fill K ?c0 ws = Some c1" "ctx_inv K c1"
    "stackPos c1 = stackPos ?c0" "frame_top c1 = frame_top ?c0 + int (length ws)"
    "\<forall>j. j < nat (stackPos ?c0) \<longrightarrow> stack c1 ! j = stack ?c0 ! j"
    "\<forall>j. int j < frame_top ?c0 \<longrightarrow> bnArray c1 ! j = bnArray ?c0 ! j"
    "\<forall>k < length ws. bn_d (bnArray c1 ! (nat (frame_top ?c0) + k)) ! 0 = ws ! k"
    by blast
  have acq: "acquire K c ws = Some c1" using s(1) c1(1) by (simp add: acquire_def)
  have sp1: "stackPos c1 = stackPos c + 1" using c1(3) by simp
  have p1: "0 < stackPos c1" using sp1 f(5) by simp
  have lt1: "frame_top c1 < BN_CTX_ARRAY_SIZE K" using c1(4) ft0 assms(3) by simp
  have "nat (stackPos c) < nat (stackPos ?c0)" using f(5) by simp
  then have "stack c1 ! nat (stackPos c) = stack ?c0 ! nat (stackPos c)" using c1(5) by blast
  also have "\<dots> = frame_top c" using f(5) by (simp add: frame_top_def)
  finally have lo: "stack c1 ! nat (stackPos c1 - 1) = frame_top c" using sp1 by simp
  have alen1: "length (bnArray c1) = nat (BN_CTX_ARRAY_SIZE K)" using c1(2) by (simp add: ctx_inv_def)
  from BN_CTX_end_inv[OF c1(2) p1 lt1] obtain c2 where c2: "BN_CTX_end K c1 = Normal c2" "ctx_inv K c2"
    "stackPos c2 = stackPos c1 - 1" "frame_top c2 = stack c1 ! nat (stackPos c1 - 1)"
    "\<forall>j < length (bnArray c1).
        (stack c1 ! nat (stackPos c1 - 1) \<le> int j \<and> int j < frame_top c1 \<longrightarrow> cleared (bnArray c2 ! j))
      \<and> (\<not> (stack c1 ! nat (stackPos c1 - 1) \<le> int j \<and> int j < frame_top c1)
            \<longrightarrow> bnArray c2 ! j = bnArray c1 ! j)"
    by blast
  have keep: "\<forall>j. int j < frame_top c \<longrightarrow> bnArray c2 ! j = bnArray c ! j"
  proof (intro allI impI)
    fix j assume j: "int j < frame_top c"
    then have jl: "j < length (bnArray c1)" using alen1 f(3) by linarith
    have "\<not> (stack c1 ! nat (stackPos c1 - 1) \<le> int j \<and> int j < frame_top c1)" using lo j by simp
    then have "bnArray c2 ! j = bnArray c1 ! j" using c2(5) jl by blast
    also have "\<dots> = bnArray ?c0 ! j" using c1(6) ft0 j by simp
    finally show "bnArray c2 ! j = bnArray c ! j" by simp
  qed
  have clr: "\<forall>k < length ws. cleared (bnArray c2 ! (nat (frame_top c) + k))"
  proof (intro allI impI)
    fix k assume k: "k < length ws"
    let ?j = "nat (frame_top c) + k"
    have a: "int ?j = frame_top c + int k" using f(1) by simp
    have jl: "?j < length (bnArray c1)" using alen1 a k assms(3) by linarith
    have "stack c1 ! nat (stackPos c1 - 1) \<le> int ?j \<and> int ?j < frame_top c1"
      using lo a k c1(4) ft0 by simp
    then show "cleared (bnArray c2 ! ?j)" using c2(5) jl by blast
  qed
  have sp2: "stackPos c2 = stackPos c" using c2(3) sp1 by simp
  have ft2: "frame_top c2 = frame_top c" using c2(4) lo by simp
  let ?c3 = "c2\<lparr>stackPos := stackPos c2 + 1, stack := (stack c2)[nat (stackPos c2 + 1) := frame_top c2]\<rparr>"
  have lt2: "stackPos c2 + 1 < BN_CTX_ARRAY_SIZE K" using sp2 assms(2) by simp
  note s3 = BN_CTX_start_inv[OF c2(2) lt2]
  have slen2: "length (stack c2) = nat (BN_CTX_ARRAY_SIZE K)" using c2(2) by (simp add: ctx_inv_def)
  have "nat (stackPos c2 + 1) < length (stack c2)" using slen2 lt2 sp2 f(5) by linarith
  then have ft3: "frame_top ?c3 = frame_top c" using ft2 by (simp add: frame_top_def)
  have cap3: "frame_top ?c3 + int (length ws) \<le> BN_CTX_ARRAY_SIZE K" using ft3 assms(3) by simp
  from get_n_below_capacity[OF s3(2) cap3] ft3 obtain c4 where
    c4: "get_n K ?c3 (length ws) = Some (map (\<lambda>k. Pool (frame_top c + int k)) [0..<length ws], c4)"
      "bnArray c4 = bnArray ?c3"
    by auto
  have vals: "\<forall>k < length ws. bn_d (bnArray c1 ! (nat (frame_top c) + k)) ! 0 = ws ! k"
    using c1(7) ft0 by simp
  show ?thesis
    using acq sp1 vals c2(1,2) sp2 ft2 keep clr s3(1) c4 by auto
qed


section \<open>Pool exhaustion\<close>

text \<open>
  Claim C3. In a context that satisfies the invariant, \<^verbatim>\<open>BN_CTX_get\<close> returns \<^verbatim>\<open>NULL\<close>
  exactly when the next slot, \<open>frame_top + 1\<close> in number, would lie beyond
  \<^verbatim>\<open>BN_CTX_ARRAY_SIZE\<close>. The failing call ends on its ordinary path and returns the context
  it was given, unchanged in every field: the pool has not grown, no bignum has been
  touched, and the same call on the returned context fails in the same way. Otherwise the
  call returns the slot at \<open>frame_top\<close>, advances the frame by one and leaves the pool
  array as it was.
\<close>

theorem BN_CTX_get_exhaustion:
  assumes "ctx_inv K c"
  shows "((\<exists>c'. payload (BN_CTX_get K c) = Some (None, c')) \<longleftrightarrow> BN_CTX_ARRAY_SIZE K < frame_top c + 1)
       \<and> (BN_CTX_ARRAY_SIZE K < frame_top c + 1 \<longrightarrow> BN_CTX_get K c = Normal (None, c))
       \<and> (frame_top c + 1 \<le> BN_CTX_ARRAY_SIZE K \<longrightarrow>
            (\<exists>c'. BN_CTX_get K c = Normal (Some (Pool (frame_top c)), c') \<and> ctx_inv K c'
                 \<and> bnArray c' = bnArray c \<and> frame_top c' = frame_top c + 1))"
proof (cases "frame_top c < BN_CTX_ARRAY_SIZE K")
  case True
  have "nat (stackPos c) < length (stack c)" using ctx_inv_frame_top(4)[OF assms] .
  then have "frame_top (c\<lparr>stack := (stack c)[nat (stackPos c) := frame_top c + 1],
                     bnArrayMax := max (bnArrayMax c) (frame_top c + 1)\<rparr>) = frame_top c + 1"
    by (simp add: frame_top_def)
  then show ?thesis using BN_CTX_get_inv[OF assms True] True by simp
next
  case False
  then show ?thesis using BN_CTX_get_exhausted[OF assms False] by simp
qed

theorem BN_CTX_get_exhaustion_witness:
  "ctx_inv example_consts full_pool
   \<and> BN_CTX_ARRAY_SIZE example_consts < frame_top full_pool + 1
   \<and> BN_CTX_get example_consts full_pool = Normal (None, full_pool)
   \<and> ctx_inv example_consts (BN_CTX_init example_consts :: 32 word BN_CTX)
   \<and> frame_top (BN_CTX_init example_consts :: 32 word BN_CTX) + 1 \<le> BN_CTX_ARRAY_SIZE example_consts
   \<and> (\<exists>c'. BN_CTX_get example_consts (BN_CTX_init example_consts :: 32 word BN_CTX)
              = Normal (Some (Pool 0), c')
         \<and> bnArray c' = bnArray (BN_CTX_init example_consts :: 32 word BN_CTX) \<and> frame_top c' = 1)"
proof -
  have h1: "ctx_inv example_consts full_pool" by code_simp
  have h2: "BN_CTX_ARRAY_SIZE example_consts < frame_top full_pool + 1" by code_simp
  have h3: "ctx_inv example_consts (BN_CTX_init example_consts :: 32 word BN_CTX)" by code_simp
  have h4: "frame_top (BN_CTX_init example_consts :: 32 word BN_CTX) + 1 \<le> BN_CTX_ARRAY_SIZE example_consts"
    by code_simp
  have h5: "frame_top (BN_CTX_init example_consts :: 32 word BN_CTX) = 0" by code_simp
  show ?thesis
    using h1 h2 h3 h4 h5 BN_CTX_get_exhaustion[OF h1] BN_CTX_get_exhaustion[OF h3] by auto
qed


section \<open>Releasing a frame that reaches the end of the pool\<close>

text \<open>
  Claim C1 asks that after start, \<open>N\<close> gets, writes and end, the mark is what it was before
  the start and a second start with \<open>N\<close> gets returns cleared bignums. (The mark is the frame
  top \<^verbatim>\<open>stack[ stackPos ]\<close>; \<^verbatim>\<open>bnArrayMax\<close> keeps its peak by construction.) When the
  \<open>N\<close> gets take the last slot of the pool the code does otherwise. Each get succeeds and the
  frame top becomes \<^verbatim>\<open>BN_CTX_ARRAY_SIZE\<close>, which the sanity check admits. \<^verbatim>\<open>BN_CTX_end\<close>
  clears the bignums, its loop ends with \<open>i = BN_CTX_ARRAY_SIZE\<close>, and
  \<^verbatim>\<open>ENSURES_V( i < BN_CTX_ARRAY_SIZE )\<close> returns before the stack is unwound: depth and
  frame top stay, and every later get returns \<^verbatim>\<open>NULL\<close>, also after another start.
\<close>

theorem BN_CTX_end_full_pool_not_unwound:
  assumes "ctx_inv K c" and "0 < stackPos c" and "frame_top c = BN_CTX_ARRAY_SIZE K"
  shows "\<exists>c'. BN_CTX_end K c = IntError c' \<and> stackPos c' = stackPos c
           \<and> frame_top c' = BN_CTX_ARRAY_SIZE K
           \<and> BN_CTX_get K c' = Normal (None, c')
           \<and> (stackPos c + 1 < BN_CTX_ARRAY_SIZE K \<longrightarrow>
                (\<exists>c''. BN_CTX_start K c' = Normal c'' \<and> BN_CTX_get K c'' = Normal (None, c'')))"
proof -
  from BN_CTX_end_full[OF assms] obtain c' where c': "BN_CTX_end K c = IntError c'" "ctx_inv K c'"
    "stackPos c' = stackPos c" "stack c' = stack c" by blast
  have ft: "frame_top c' = BN_CTX_ARRAY_SIZE K" using c'(3,4) assms(3) by (simp add: frame_top_def)
  have g: "BN_CTX_get K c' = Normal (None, c')" using BN_CTX_get_exhausted[OF c'(2)] ft by simp
  have "stackPos c + 1 < BN_CTX_ARRAY_SIZE K \<longrightarrow>
          (\<exists>c''. BN_CTX_start K c' = Normal c'' \<and> BN_CTX_get K c'' = Normal (None, c''))"
  proof
    assume lt: "stackPos c + 1 < BN_CTX_ARRAY_SIZE K"
    let ?c = "c'\<lparr>stackPos := stackPos c' + 1, stack := (stack c')[nat (stackPos c' + 1) := frame_top c']\<rparr>"
    have s: "BN_CTX_start K c' = Normal ?c" "ctx_inv K ?c"
      using BN_CTX_start_inv[OF c'(2)] lt c'(3) by simp_all
    have "nat (stackPos c' + 1) < length (stack c')"
      using c'(2) lt c'(3) unfolding ctx_inv_alt by simp
    then have "frame_top ?c = BN_CTX_ARRAY_SIZE K" using ft by (simp add: frame_top_def)
    then have "BN_CTX_get K ?c = Normal (None, ?c)" using BN_CTX_get_exhausted[OF s(2)] by simp
    then show "\<exists>c''. BN_CTX_start K c' = Normal c'' \<and> BN_CTX_get K c'' = Normal (None, c'')"
      using s(1) by simp
  qed
  then show ?thesis using c' ft g by simp
qed

theorem BN_CTX_end_full_pool_not_unwound_witness:
  "acquire example_consts (BN_CTX_init example_consts) [1, 2, 3, 4, 5, 6, 7, 8] = Some full_pool
   \<and> frame_top (BN_CTX_init example_consts :: 32 word BN_CTX) = 0
   \<and> ctx_inv example_consts full_pool \<and> 0 < stackPos full_pool
   \<and> frame_top full_pool = BN_CTX_ARRAY_SIZE example_consts
   \<and> stackPos full_pool + 1 < BN_CTX_ARRAY_SIZE example_consts
   \<and> BN_CTX_end example_consts full_pool = IntError (full_pool\<lparr>bnArray := replicate 8 zero_bn\<rparr>)
   \<and> (\<exists>c'. BN_CTX_end example_consts full_pool = IntError c' \<and> stackPos c' = 1 \<and> frame_top c' = 8
         \<and> BN_CTX_get example_consts c' = Normal (None, c')
         \<and> (\<exists>c''. BN_CTX_start example_consts c' = Normal c''
                \<and> BN_CTX_get example_consts c'' = Normal (None, c'')))"
proof -
  have a: "acquire example_consts (BN_CTX_init example_consts) [1, 2, 3, 4, 5, 6, 7, 8] = Some full_pool"
    by code_simp
  have z: "frame_top (BN_CTX_init example_consts :: 32 word BN_CTX) = 0" by code_simp
  have h1: "ctx_inv example_consts full_pool" by code_simp
  have h2: "0 < stackPos full_pool" by code_simp
  have h3: "frame_top full_pool = BN_CTX_ARRAY_SIZE example_consts" by code_simp
  have h4: "stackPos full_pool + 1 < BN_CTX_ARRAY_SIZE example_consts" by code_simp
  have v: "stackPos full_pool = 1" "BN_CTX_ARRAY_SIZE example_consts = 8" by code_simp+
  have e: "BN_CTX_end example_consts full_pool = IntError (full_pool\<lparr>bnArray := replicate 8 zero_bn\<rparr>)"
    by code_simp
  show ?thesis
    using a z h1 h2 h3 h4 e BN_CTX_end_full_pool_not_unwound[OF h1 h2 h3] by (simp add: v)
qed


text \<open>
  Claim C2 asks that each release of a nested sequence clears the temporaries of its own
  level and no others. With the innermost frame at the end of the pool, the first
  \<^verbatim>\<open>BN_CTX_end\<close> clears that frame and does not unwind, so the release issued for the
  enclosing checkpoint works on the same innermost frame again: it ends the same way and
  every bignum below that frame, the temporaries of the enclosing level among them, is
  still what it was.
\<close>

theorem BN_CTX_end_full_pool_outer_release:
  assumes "ctx_inv K c" and "1 < stackPos c" and "frame_top c = BN_CTX_ARRAY_SIZE K"
  shows "\<exists>c1 c2. BN_CTX_end K c = IntError c1 \<and> BN_CTX_end K c1 = IntError c2
           \<and> stackPos c2 = stackPos c
           \<and> (\<forall>j. int j < stack c ! nat (stackPos c - 1) \<longrightarrow> bnArray c2 ! j = bnArray c ! j)"
proof -
  have p: "0 < stackPos c" using assms(2) by simp
  note f = ctx_inv_frame_top[OF assms(1)]
  have len: "length (bnArray c) = nat (BN_CTX_ARRAY_SIZE K)" using assms(1) by (simp add: ctx_inv_def)
  have lo: "stack c ! nat (stackPos c - 1) \<le> BN_CTX_ARRAY_SIZE K" using f(7)[OF p] assms(3) by simp
  from BN_CTX_end_full[OF assms(1) p assms(3)] obtain c1 where c1: "BN_CTX_end K c = IntError c1"
    "ctx_inv K c1" "stackPos c1 = stackPos c" "stack c1 = stack c"
    "\<forall>j < length (bnArray c). \<not> stack c ! nat (stackPos c - 1) \<le> int j \<longrightarrow> bnArray c1 ! j = bnArray c ! j"
    by blast
  have len1: "length (bnArray c1) = nat (BN_CTX_ARRAY_SIZE K)" using c1(2) by (simp add: ctx_inv_def)
  have ft1: "frame_top c1 = BN_CTX_ARRAY_SIZE K" using c1(3,4) assms(3) by (simp add: frame_top_def)
  have p1: "0 < stackPos c1" using p c1(3) by simp
  from BN_CTX_end_full[OF c1(2) p1 ft1] obtain c2 where c2: "BN_CTX_end K c1 = IntError c2"
    "stackPos c2 = stackPos c1"
    "\<forall>j < length (bnArray c1). \<not> stack c1 ! nat (stackPos c1 - 1) \<le> int j \<longrightarrow> bnArray c2 ! j = bnArray c1 ! j"
    by blast
  have "\<forall>j. int j < stack c ! nat (stackPos c - 1) \<longrightarrow> bnArray c2 ! j = bnArray c ! j"
  proof (intro allI impI)
    fix j assume j: "int j < stack c ! nat (stackPos c - 1)"
    then have jl: "j < nat (BN_CTX_ARRAY_SIZE K)" using lo by linarith
    have "bnArray c2 ! j = bnArray c1 ! j" using c2(3) jl len1 j c1(3,4) by simp
    moreover have "bnArray c1 ! j = bnArray c ! j" using c1(5) jl len j by simp
    ultimately show "bnArray c2 ! j = bnArray c ! j" by simp
  qed
  then show ?thesis using c1(1,3) c2(1,2) by simp
qed

theorem BN_CTX_end_full_pool_outer_release_witness:
  "Option.bind (Option.bind (acquire example_consts (BN_CTX_init example_consts) [1, 2, 3])
       (\<lambda>c. acquire example_consts c [4, 5, 6])) (\<lambda>c. acquire example_consts c [7, 8])
     = Some three_levels
   \<and> ctx_inv example_consts three_levels \<and> 1 < stackPos three_levels
   \<and> frame_top three_levels = BN_CTX_ARRAY_SIZE example_consts
   \<and> (\<exists>c1 c2. BN_CTX_end example_consts three_levels = IntError c1
         \<and> BN_CTX_end example_consts c1 = IntError c2 \<and> stackPos c2 = 3
         \<and> bnArray c2 ! 3 = word_bn 4 \<and> bnArray c2 ! 4 = word_bn 5 \<and> bnArray c2 ! 5 = word_bn 6)
   \<and> bn_top (word_bn 4) = 1 \<and> bn_top (word_bn 5) = 1 \<and> bn_top (word_bn 6) = 1"
proof -
  have a: "Option.bind (Option.bind (acquire example_consts (BN_CTX_init example_consts) [1, 2, 3])
       (\<lambda>c. acquire example_consts c [4, 5, 6])) (\<lambda>c. acquire example_consts c [7, 8])
     = Some three_levels"
    by code_simp
  have h1: "ctx_inv example_consts three_levels" by code_simp
  have h2: "1 < stackPos three_levels" by code_simp
  have h3: "frame_top three_levels = BN_CTX_ARRAY_SIZE example_consts" by code_simp
  have v: "stackPos three_levels = 3" "stack three_levels ! nat (stackPos three_levels - 1) = 6"
    "bnArray three_levels ! 3 = word_bn 4" "bnArray three_levels ! 4 = word_bn 5"
    "bnArray three_levels ! 5 = word_bn 6"
    "bn_top (word_bn 4) = 1" "bn_top (word_bn 5) = 1" "bn_top (word_bn 6) = 1"
    by code_simp+
  from BN_CTX_end_full_pool_outer_release[OF h1 h2 h3] obtain c1 c2 where
    c: "BN_CTX_end example_consts three_levels = IntError c1"
      "BN_CTX_end example_consts c1 = IntError c2" "stackPos c2 = stackPos three_levels"
      "\<forall>j. int j < stack three_levels ! nat (stackPos three_levels - 1)
           \<longrightarrow> bnArray c2 ! j = bnArray three_levels ! j"
    by blast
  have "bnArray c2 ! 3 = word_bn 4" "bnArray c2 ! 4 = word_bn 5" "bnArray c2 ! 5 = word_bn 6"
    using c(4) v(2,3,4,5) by simp_all
  then show ?thesis using a h1 h2 h3 c(1,2,3) v by auto
qed


section \<open>Release with extended bignums\<close>

lemma BN_CTX_end_ext_arrays:
  assumes "payload (BN_CTX_end K c) = Some c1"
  shows "bnExtArray c1 = bnExtArray c \<and> bnExt2Array c1 = bnExt2Array c"
  using assms
  by (auto simp: BN_CTX_end_def Let_def split: if_splits option.splits prod.splits)

lemma clear_ext_MONT:
  assumes "0 < length (bnExtArray c)" and "BN_clear K (bnExtArray c ! 0) = Normal m"
  shows "clear_ext K c BIGNUM_EXT_MONT = Some (c\<lparr>bnExtArray := (bnExtArray c)[0 := m]\<rparr>)"
  using assms by (simp add: clear_ext_def BN_CTX_get_ext_def)

lemma clear_ext_MUL1:
  assumes "0 < length (bnExt2Array c)" and "BN_clear K (bnExt2Array c ! 0) = Normal a"
  shows "clear_ext K c BIGNUM_EXT_MUL1 = Some (c\<lparr>bnExt2Array := (bnExt2Array c)[0 := a]\<rparr>)"
  using assms by (simp add: clear_ext_def BN_CTX_get_ext_def)

lemma clear_ext_MUL2:
  assumes "1 < length (bnExt2Array c)" and "BN_clear K (bnExt2Array c ! 1) = Normal b"
  shows "clear_ext K c BIGNUM_EXT_MUL2 = Some (c\<lparr>bnExt2Array := (bnExt2Array c)[1 := b]\<rparr>)"
  using assms by (simp add: clear_ext_def BN_CTX_get_ext_def)


text \<open>
  Claim C9, amended. \<^verbatim>\<open>BN_CTX_end_ext\<close> first does what \<^verbatim>\<open>BN_CTX_end\<close> does; the context
  it goes on with is the one that call leaves. With the tag MONT it then clears the MONT
  slot, \<^verbatim>\<open>bnExtArray[ 0 ]\<close>; with the tag MUL1 it clears both the MUL1 and the MUL2 slot,
  \<^verbatim>\<open>bnExt2Array[ 0 ]\<close> and \<^verbatim>\<open>bnExt2Array[ 1 ]\<close>; the cleared slots have \<open>top = 0\<close>, and
  nothing else of the context changes. The tag MUL2 is not accepted: the check after the
  standard release fails and no extended slot is cleared.
\<close>

theorem BN_CTX_end_ext_release:
  assumes "payload (BN_CTX_end K c) = Some c1"
    and "0 < length (bnExtArray c)" and "pool_bn K (bnExtArray c ! 0)"
    and "1 < length (bnExt2Array c)" and "pool_bn K (bnExt2Array c ! 0)"
    and "pool_bn K (bnExt2Array c ! 1)"
  shows "\<exists>m a b. BN_clear K (bnExtArray c ! 0) = Normal m \<and> cleared m
           \<and> BN_clear K (bnExt2Array c ! 0) = Normal a \<and> cleared a
           \<and> BN_clear K (bnExt2Array c ! 1) = Normal b \<and> cleared b
           \<and> BN_CTX_end_ext K c BIGNUM_EXT_MONT = Normal (c1\<lparr>bnExtArray := (bnExtArray c)[0 := m]\<rparr>)
           \<and> BN_CTX_end_ext K c BIGNUM_EXT_MUL1
               = Normal (c1\<lparr>bnExt2Array := (bnExt2Array c)[0 := a, 1 := b]\<rparr>)
           \<and> BN_CTX_end_ext K c BIGNUM_EXT_MUL2 = IntError c1"
proof -
  note e = BN_CTX_end_ext_arrays[OF assms(1)]
  obtain m where m: "BN_clear K (bnExtArray c ! 0) = Normal m" "cleared m"
    using BN_clear_pool[OF assms(3)] by blast
  obtain a where a: "BN_clear K (bnExt2Array c ! 0) = Normal a" "cleared a"
    using BN_clear_pool[OF assms(5)] by blast
  obtain b where b: "BN_clear K (bnExt2Array c ! 1) = Normal b" "cleared b"
    using BN_clear_pool[OF assms(6)] by blast
  have l1: "0 < length (bnExtArray c1)" "BN_clear K (bnExtArray c1 ! 0) = Normal m"
    using e assms(2) m(1) by simp_all
  have l2: "0 < length (bnExt2Array c1)" "BN_clear K (bnExt2Array c1 ! 0) = Normal a"
    using e assms(4) a(1) by auto
  have mont: "clear_ext K c1 BIGNUM_EXT_MONT = Some (c1\<lparr>bnExtArray := (bnExtArray c)[0 := m]\<rparr>)"
    using clear_ext_MONT[OF l1] e by simp
  have mul1: "clear_ext K c1 BIGNUM_EXT_MUL1 = Some (c1\<lparr>bnExt2Array := (bnExt2Array c)[0 := a]\<rparr>)"
    using clear_ext_MUL1[OF l2] e by simp
  have mul2: "clear_ext K (c1\<lparr>bnExt2Array := (bnExt2Array c)[0 := a]\<rparr>) BIGNUM_EXT_MUL2
        = Some (c1\<lparr>bnExt2Array := (bnExt2Array c)[0 := a, 1 := b]\<rparr>)"
    using clear_ext_MUL2[of "c1\<lparr>bnExt2Array := (bnExt2Array c)[0 := a]\<rparr>" K b] assms(4) b(1) by simp
  have "BN_CTX_end_ext K c BIGNUM_EXT_MONT = Normal (c1\<lparr>bnExtArray := (bnExtArray c)[0 := m]\<rparr>)"
    using assms(1) mont by (simp add: BN_CTX_end_ext_def)
  moreover have "BN_CTX_end_ext K c BIGNUM_EXT_MUL1
               = Normal (c1\<lparr>bnExt2Array := (bnExt2Array c)[0 := a, 1 := b]\<rparr>)"
    using assms(1) mul1 mul2 by (simp add: BN_CTX_end_ext_def)
  moreover have "BN_CTX_end_ext K c BIGNUM_EXT_MUL2 = IntError c1"
    using assms(1) by (simp add: BN_CTX_end_ext_def)
  ultimately show ?thesis using m a b by blast
qed

theorem BN_CTX_end_ext_release_witness:
  "payload (BN_CTX_end example_consts mul2_in_use) = Some (mul2_in_use\<lparr>stackPos := 0\<rparr>)
   \<and> 0 < length (bnExtArray mul2_in_use) \<and> pool_bn example_consts (bnExtArray mul2_in_use ! 0)
   \<and> 1 < length (bnExt2Array mul2_in_use) \<and> pool_bn example_consts (bnExt2Array mul2_in_use ! 0)
   \<and> pool_bn example_consts (bnExt2Array mul2_in_use ! 1)
   \<and> bn_top (bnExt2Array mul2_in_use ! 1) = 1
   \<and> (\<exists>m a b. BN_clear example_consts (bnExtArray mul2_in_use ! 0) = Normal m \<and> cleared m
           \<and> BN_clear example_consts (bnExt2Array mul2_in_use ! 0) = Normal a \<and> cleared a
           \<and> BN_clear example_consts (bnExt2Array mul2_in_use ! 1) = Normal b \<and> cleared b
           \<and> BN_CTX_end_ext example_consts mul2_in_use BIGNUM_EXT_MONT
               = Normal (mul2_in_use\<lparr>stackPos := 0, bnExtArray := (bnExtArray mul2_in_use)[0 := m]\<rparr>)
           \<and> BN_CTX_end_ext example_consts mul2_in_use BIGNUM_EXT_MUL1
               = Normal (mul2_in_use\<lparr>stackPos := 0, bnExt2Array := (bnExt2Array mul2_in_use)[0 := a, 1 := b]\<rparr>)
           \<and> BN_CTX_end_ext example_consts mul2_in_use BIGNUM_EXT_MUL2
               = IntError (mul2_in_use\<lparr>stackPos := 0\<rparr>))"
proof -
  have h1: "payload (BN_CTX_end example_consts mul2_in_use) = Some (mul2_in_use\<lparr>stackPos := 0\<rparr>)"
    by code_simp
  have h2: "0 < length (bnExtArray mul2_in_use)" by code_simp
  have h3: "pool_bn example_consts (bnExtArray mul2_in_use ! 0)" by code_simp
  have h4: "1 < length (bnExt2Array mul2_in_use)" by code_simp
  have h5: "pool_bn example_consts (bnExt2Array mul2_in_use ! 0)" by code_simp
  have h6: "pool_bn example_consts (bnExt2Array mul2_in_use ! 1)" by code_simp
  have h7: "bn_top (bnExt2Array mul2_in_use ! 1) = 1" by code_simp
  show ?thesis
    using h1 h2 h3 h4 h5 h6 h7 BN_CTX_end_ext_release[OF h1 h2 h3 h4 h5 h6] by simp
qed


text \<open>
  Claim C9 as stated fails for the tag MUL2: with the MUL2 slot holding the value 7,
  \<^verbatim>\<open>BN_CTX_end_ext\<close> with that tag leaves the slot as it is, \<open>top = 1\<close>.
\<close>

theorem BN_CTX_end_ext_MUL2_slot_kept:
  "BN_CTX_end_ext example_consts mul2_in_use BIGNUM_EXT_MUL2 = IntError (mul2_in_use\<lparr>stackPos := 0\<rparr>)
   \<and> deref (mul2_in_use\<lparr>stackPos := 0\<rparr>) (Ext2 1)
       = Some ((BN_init_ext example_consts True)\<lparr>bn_top := 1, bn_d := 7 # replicate 15 0\<rparr>)
   \<and> bn_top ((BN_init_ext example_consts True :: 32 word BIGNUM)\<lparr>bn_top := 1, bn_d := 7 # replicate 15 0\<rparr>) \<noteq> 0"
  by code_simp

end
